theory Spec2Isabelle
  imports Main "HOL-Library.Char_ord" "HOL-Library.List_Lexorder" "HOL-Library.Sublist"
    "HOL-Library.Monad_Syntax"
begin

section \<open>Data model of \<open>routers/word_collection.py\<close>\<close>

text \<open>
  A row returned by \<open>fetch_query.fetch_word_corrections_from_db\<close> is the 6-tuple that both
  handlers unpack:
  \<open>timestamp, incorrect_word, correct_word, content_tag, occurrence_count, rank = record\<close>.
  The timestamp is a \<open>datetime\<close>; the handlers only ever call \<open>strftime\<close> on it, so its
  type stays a parameter \<open>'ts\<close> and the formatting function \<open>fmt\<close> is passed in.
\<close>

type_synonym 'ts db_row = "'ts \<times> string \<times> string \<times> string \<times> int \<times> int"

definition row_timestamp :: "'ts db_row \<Rightarrow> 'ts" where
  "row_timestamp r = fst r"

definition row_tag :: "'ts db_row \<Rightarrow> string" where
  "row_tag r = fst (snd (snd (snd r)))"

text \<open>The dictionary that \<open>get_rank\<close> appends for every row (lines 160-165).\<close>

record word_entry =
  incorrect_word :: string
  correct_word :: string
  occurrence_count :: int
  rank :: int

definition row_entry :: "'ts db_row \<Rightarrow> word_entry" where
  "row_entry r = (case r of (timestamp, incorrect, correct, content_tag, cnt, rnk) \<Rightarrow>
     \<lparr>incorrect_word = incorrect, correct_word = correct, occurrence_count = cnt, rank = rnk\<rparr>)"

text \<open>
  The values stored in the dictionaries both handlers return: integers, strings, lists of
  strings and lists of ranked word entries.
\<close>

datatype jval = JInt int | JStr string | JStrs "string list" | JWords "word_entry list"

text \<open>
  A Python \<open>dict\<close> keeps its keys in insertion order, and both handlers rely on it
  (\<open>content_data.values()\<close>, \<open>mention_counts.items()\<close>), so a dictionary is an association
  list with distinct keys in insertion order.
\<close>

type_synonym ('k, 'v) dict = "('k \<times> 'v) list"

definition dict_keys :: "('k, 'v) dict \<Rightarrow> 'k list" where
  "dict_keys d = map fst d"

text \<open>\<open>d[k] = v\<close>: an existing key keeps its position, a new key goes last.\<close>

definition dict_set :: "'k \<Rightarrow> 'v \<Rightarrow> ('k, 'v) dict \<Rightarrow> ('k, 'v) dict" where
  "dict_set k v d =
     (if k \<in> set (dict_keys d) then map (\<lambda>(k', v'). if k' = k then (k', v) else (k', v')) d
      else d @ [(k, v)])"

text \<open>In-place mutation of the value stored under \<open>k\<close> (for instance \<open>d[k].append(x)\<close>).\<close>

definition dict_upd :: "'k \<Rightarrow> ('v \<Rightarrow> 'v) \<Rightarrow> ('k, 'v) dict \<Rightarrow> ('k, 'v) dict" where
  "dict_upd k f d = map (\<lambda>(k', v'). if k' = k then (k', f v') else (k', v')) d"

text \<open>\<open>{**d1, **d2}\<close>: the items of \<open>d2\<close> are assigned into \<open>d1\<close> one by one.\<close>

definition dict_merge :: "('k, 'v) dict \<Rightarrow> ('k, 'v) dict \<Rightarrow> ('k, 'v) dict" where
  "dict_merge d1 d2 = foldl (\<lambda>d (k, v). dict_set k v d) d1 d2"

section \<open>The ranking aggregation of \<open>get_rank\<close> (lines 149-208)\<close>

text \<open>
  \<open>processed_data\<close>: timestamp string \<open>\<rightarrow>\<close> (content tag \<open>\<rightarrow>\<close> list of word entries).
  One iteration of the loop of lines 150-165.
\<close>

type_synonym processed = "(string, (string, word_entry list) dict) dict"

definition add_record :: "('ts \<Rightarrow> string) \<Rightarrow> processed \<Rightarrow> 'ts db_row \<Rightarrow> processed" where
  "add_record fmt processed_data record =
     (let timestamp_str = fmt (row_timestamp record);
          content_tag = row_tag record;
          pd1 = (if timestamp_str \<notin> set (dict_keys processed_data)
                 then dict_set timestamp_str [] processed_data else processed_data);
          pd2 = dict_upd timestamp_str
                  (\<lambda>content. if content_tag \<notin> set (dict_keys content)
                              then dict_set content_tag [] content else content) pd1
      in dict_upd timestamp_str
           (dict_upd content_tag (\<lambda>words. words @ [row_entry record])) pd2)"

text \<open>
  \<open>sorted(..., key=lambda x: x["occurrence_count"], reverse=True)\<close> and the in-place
  \<open>all_words.sort(...)\<close>: Python's sort is stable also with \<open>reverse=True\<close>, entries with equal
  counts keep the order they had. On integer keys that is the stable ascending sort by the
  negated count.
\<close>

definition sort_desc :: "word_entry list \<Rightarrow> word_entry list" where
  "sort_desc ws = sort_key (\<lambda>x. - occurrence_count x) ws"

text \<open>
  The loop of lines 178-183 (and again 197-202): \<open>unique_ranks\<close> is the set of ranks seen,
  \<open>result_words\<close> the list built so far; the \<open>break\<close> is tested after every iteration.
\<close>

fun take_unique_ranks :: "word_entry list \<Rightarrow> int set \<Rightarrow> word_entry list \<Rightarrow> word_entry list" where
  "take_unique_ranks [] unique_ranks result_words = result_words"
| "take_unique_ranks (word # rest) unique_ranks result_words =
     (if rank word \<notin> unique_ranks
      then (if length (result_words @ [word]) \<ge> 10 then result_words @ [word]
            else take_unique_ranks rest (insert (rank word) unique_ranks) (result_words @ [word]))
      else (if length result_words \<ge> 10 then result_words
            else take_unique_ranks rest unique_ranks result_words))"

definition top_words :: "word_entry list \<Rightarrow> word_entry list" where
  "top_words words = take_unique_ranks (sort_desc words) {} []"

text \<open>
  \<open>if tag:\<close> is false for \<open>None\<close> and for the empty string: only a non-empty tag selects
  the per-tag branch.
\<close>

definition requested :: "string option \<Rightarrow> string option" where
  "requested tag = (case tag of None \<Rightarrow> None | Some t \<Rightarrow> if t = [] then None else Some t)"

text \<open>
  The body of the loop of lines 169-206 for one item of \<open>sorted(processed_data.items())\<close>:
  the entries appended to \<open>result\<close> (none when the bucket is skipped by \<open>continue\<close>).
  \<open>timestamp_data[tag] = result_words\<close> is a dictionary assignment, so a requested tag that
  spells \<open>timestamp\<close> overwrites the timestamp string.
\<close>

definition emit_bucket :: "string option \<Rightarrow> string \<times> (string, word_entry list) dict
    \<Rightarrow> (string, jval) dict list" where
  "emit_bucket tag item = (case item of (timestamp, content_data) \<Rightarrow>
     (let timestamp_data = [(''timestamp'', JStr timestamp)] in
      case requested tag of
        Some t \<Rightarrow>
          (case map_of content_data t of
             Some words \<Rightarrow> [dict_set t (JWords (top_words words)) timestamp_data]
           | None \<Rightarrow> [])
      | None \<Rightarrow>
          [dict_set ''total'' (JWords (top_words (concat (map snd content_data))))
             timestamp_data]))"

text \<open>
  \<open>sorted(processed_data.items())\<close> compares the (key, value) pairs; the keys of a dictionary
  are distinct, so the comparison is decided by the timestamp strings alone, in the
  lexicographic order of their characters.
\<close>

definition get_rank_aggregate :: "('ts \<Rightarrow> string) \<Rightarrow> string option \<Rightarrow> 'ts db_row list
    \<Rightarrow> (string, jval) dict list" where
  "get_rank_aggregate fmt tag raw_data =
     (let processed_data = foldl (add_record fmt) [] raw_data
      in concat (map (emit_bucket tag) (sort_key fst processed_data)))"


section \<open>The mention aggregation of \<open>get_word_tags\<close> (lines 312-354)\<close>

text \<open>The exceptions the handlers can let escape.\<close>

datatype exn = ValueError | KeyError string | TypeError

definition and_then :: "exn + 'a \<Rightarrow> ('a \<Rightarrow> exn + 'b) \<Rightarrow> exn + 'b" where
  "and_then m f = (case m of Inl e \<Rightarrow> Inl e | Inr x \<Rightarrow> f x)"

text \<open>The dictionary stored on first sight of a timestamp (lines 326-334).\<close>

definition new_summary :: "string \<Rightarrow> (string, jval) dict" where
  "new_summary search_word =
     [(''total'', JInt 0), (''news'', JInt 0), (''webtoon'', JInt 0), (''youtube'', JInt 0),
      (''search_word'', JStr search_word), (''incorrect_word'', JStrs []),
      (''correct_word'', JStrs [])]"

text \<open>
  \<open>d[k] += n\<close> for an integer \<open>n\<close>: reading a missing key raises \<open>KeyError\<close>, adding an
  integer to a string or to a list raises \<open>TypeError\<close>.
\<close>

definition iadd :: "string \<Rightarrow> int \<Rightarrow> (string, jval) dict \<Rightarrow> exn + (string, jval) dict" where
  "iadd k n d =
     (case map_of d k of
        None \<Rightarrow> Inl (KeyError k)
      | Some (JInt m) \<Rightarrow> Inr (dict_set k (JInt (m + n)) d)
      | Some _ \<Rightarrow> Inl TypeError)"

text \<open>
  \<open>if w not in d[k]: d[k].append(w)\<close>. The two keys it is used with always hold lists, so
  the other branches are never taken.
\<close>

definition append_new :: "string \<Rightarrow> string \<Rightarrow> (string, jval) dict \<Rightarrow> exn + (string, jval) dict" where
  "append_new k w d =
     (case map_of d k of
        None \<Rightarrow> Inl (KeyError k)
      | Some (JStrs ws) \<Rightarrow> Inr (if w \<notin> set ws then dict_set k (JStrs (ws @ [w])) d else d)
      | Some _ \<Rightarrow> Inl TypeError)"

text \<open>
  Lines 336-343, all of them updates of the one dictionary \<open>mention_counts[timestamp_str]\<close>:
  the count is added under the row's tag, then under \<open>total\<close>, and the two words are recorded
  when one of them is the search word.
\<close>

definition update_summary :: "string \<Rightarrow> string \<Rightarrow> string \<Rightarrow> string \<Rightarrow> int
    \<Rightarrow> (string, jval) dict \<Rightarrow> exn + (string, jval) dict" where
  "update_summary search_word incorrect correct content_tag cnt counts =
     and_then (iadd content_tag cnt counts) (\<lambda>c1.
     and_then (iadd ''total'' cnt c1) (\<lambda>c2.
       if search_word = incorrect \<or> search_word = correct
       then and_then (append_new ''incorrect_word'' incorrect c2)
              (append_new ''correct_word'' correct)
       else Inr c2))"

text \<open>One iteration of the loop of lines 321-343.\<close>

type_synonym mentions = "(string, (string, jval) dict) dict"

definition mention_step :: "('ts \<Rightarrow> string) \<Rightarrow> string \<Rightarrow> mentions \<Rightarrow> 'ts db_row \<Rightarrow> exn + mentions" where
  "mention_step fmt search_word mention_counts record =
     (case record of (timestamp, incorrect, correct, content_tag, cnt, rnk) \<Rightarrow>
        (let timestamp_str = fmt timestamp;
             mc1 = (if timestamp_str \<notin> set (dict_keys mention_counts)
                    then dict_set timestamp_str (new_summary search_word) mention_counts
                    else mention_counts)
         in case map_of mc1 timestamp_str of
              None \<Rightarrow> Inl (KeyError timestamp_str)
            | Some counts \<Rightarrow>
                and_then (update_summary search_word incorrect correct content_tag cnt counts)
                  (\<lambda>counts'. Inr (dict_set timestamp_str counts' mc1))))"

fun count_mentions :: "('ts \<Rightarrow> string) \<Rightarrow> string \<Rightarrow> 'ts db_row list \<Rightarrow> mentions \<Rightarrow> exn + mentions" where
  "count_mentions fmt search_word [] mention_counts = Inr mention_counts"
| "count_mentions fmt search_word (record # rest) mention_counts =
     and_then (mention_step fmt search_word mention_counts record)
       (count_mentions fmt search_word rest)"

text \<open>
  Lines 347-352: one output dictionary \<open>{"timestamp": timestamp, **tag_counts}\<close> per item of
  \<open>mention_counts.items()\<close>, in the dictionary's own order.
\<close>

definition get_word_tags_aggregate :: "('ts \<Rightarrow> string) \<Rightarrow> string \<Rightarrow> 'ts db_row list
    \<Rightarrow> exn + (string, jval) dict list" where
  "get_word_tags_aggregate fmt search_word raw_data =
     and_then (count_mentions fmt search_word raw_data [])
       (\<lambda>mention_counts.
          Inr (map (\<lambda>(timestamp, tag_counts).
                      dict_merge [(''timestamp'', JStr timestamp)] tag_counts)
                 mention_counts))"

section \<open>The two request handlers\<close>

text \<open>
  What a handler does with a request: it returns a value (which the framework serialises
  with status 200), it raises \<open>HTTPException\<close> with a status code and an optional detail, or
  another exception leaves it uncaught.
\<close>

datatype 'a outcome = Returned 'a | HTTPException nat "string option" | Raised exn

text \<open>
  \<open>fetch_query.fetch_word_corrections_from_db\<close> lives in the database package. It is taken
  as a parameter: it raises \<open>ConnectionError\<close> or hands back rows, possibly \<open>None\<close>.
\<close>

datatype 'row fetched = ConnectionError | Rows "'row list option"

text \<open>
  The surroundings of a request: the library's \<open>datetime.strptime(s, "%Y-%m-%d %H:%M:%S")\<close>
  (\<open>None\<close> stands for its \<open>ValueError\<close>), \<open>datetime.strftime\<close> with the same format, the clock
  readings \<open>datetime.now()\<close> and \<open>datetime.now() - timedelta(hours=24)\<close>, and the database.
\<close>

record 'dt env =
  strptime :: "string \<Rightarrow> 'dt option"
  strftime :: "'dt \<Rightarrow> string"
  now :: 'dt
  now_minus_24h :: 'dt
  fetch_word_corrections_from_db :: "'dt \<Rightarrow> 'dt \<Rightarrow> 'dt db_row fetched"

text \<open>
  Lines 134-142 and, word for word, 301-309: an empty string is falsy and selects the
  default; a parse error is not caught by the \<open>except ConnectionError\<close> of either handler.
\<close>

definition parse_window :: "'dt env \<Rightarrow> string \<Rightarrow> string \<Rightarrow> exn + ('dt \<times> 'dt)" where
  "parse_window env start_time end_time =
     (case (if start_time \<noteq> [] then strptime env start_time else Some (now_minus_24h env)) of
        None \<Rightarrow> Inl ValueError
      | Some start_date_dt \<Rightarrow>
          (case (if end_time \<noteq> [] then strptime env end_time else Some (now env)) of
             None \<Rightarrow> Inl ValueError
           | Some end_date_dt \<Rightarrow> Inr (start_date_dt, end_date_dt)))"

text \<open>\<open>get_rank\<close>: \<open>if not raw_data\<close> holds for \<open>None\<close> and for an empty sequence.\<close>

definition get_rank :: "'dt env \<Rightarrow> string \<Rightarrow> string \<Rightarrow> string option
    \<Rightarrow> (string, jval) dict list outcome" where
  "get_rank env start_time end_time tag =
     (case parse_window env start_time end_time of
        Inl e \<Rightarrow> Raised e
      | Inr (start_date_dt, end_date_dt) \<Rightarrow>
          (case fetch_word_corrections_from_db env start_date_dt end_date_dt of
             ConnectionError \<Rightarrow>
               HTTPException 500 (Some ''Unable to connect to the database.'')
           | Rows raw_data \<Rightarrow>
               (case raw_data of
                  None \<Rightarrow> HTTPException 204 None
                | Some rows \<Rightarrow>
                    if rows = [] then HTTPException 204 None
                    else Returned (get_rank_aggregate (strftime env) tag rows))))"

text \<open>\<open>get_word_tags\<close>: \<open>if raw_data is None\<close> holds for \<open>None\<close> only.\<close>

definition get_word_tags :: "'dt env \<Rightarrow> string \<Rightarrow> string \<Rightarrow> string
    \<Rightarrow> (string, jval) dict list outcome" where
  "get_word_tags env start_time end_time search_word =
     (case parse_window env start_time end_time of
        Inl e \<Rightarrow> Raised e
      | Inr (start_date_dt, end_date_dt) \<Rightarrow>
          (case fetch_word_corrections_from_db env start_date_dt end_date_dt of
             ConnectionError \<Rightarrow>
               HTTPException 500 (Some ''Unable to connect to the database.'')
           | Rows raw_data \<Rightarrow>
               (case raw_data of
                  None \<Rightarrow> HTTPException 204 None
                | Some rows \<Rightarrow>
                    (case get_word_tags_aggregate (strftime env) search_word rows of
                       Inl e \<Rightarrow> Raised e
                     | Inr result \<Rightarrow> Returned result))))"

text \<open>
  The status a handler chooses itself: 200 for a returned value, the code of an
  \<open>HTTPException\<close>; none when an exception escapes (the framework then answers with a
  server error).
\<close>

fun status_code :: "'a outcome \<Rightarrow> nat option" where
  "status_code (Returned v) = Some 200"
| "status_code (HTTPException code detail) = Some code"
| "status_code (Raised e) = None"

definition client_error :: "'a outcome \<Rightarrow> bool" where
  "client_error out = (case status_code out of None \<Rightarrow> False | Some c \<Rightarrow> 400 \<le> c \<and> c < 500)"


section \<open>The library's \<open>datetime\<close>, for running the handlers on concrete requests\<close>

text \<open>
  The fields of a \<open>datetime\<close> that the format \<open>%Y-%m-%d %H:%M:%S\<close> shows.
\<close>

record datetime =
  year :: nat
  month :: nat
  day :: nat
  hour :: nat
  minute :: nat
  second :: nat

text \<open>
  \<open>strftime("%Y-%m-%d %H:%M:%S")\<close>: fixed-width, zero-padded decimal fields (for the
  four-digit years a database timestamp carries).
\<close>

definition digit_char :: "nat \<Rightarrow> char" where
  "digit_char n = ''0123456789'' ! (n mod 10)"

definition zero_pad2 :: "nat \<Rightarrow> string" where
  "zero_pad2 n = [digit_char (n div 10), digit_char n]"

definition zero_pad4 :: "nat \<Rightarrow> string" where
  "zero_pad4 n = [digit_char (n div 1000), digit_char (n div 100)] @ zero_pad2 n"

definition strftime_ymdhms :: "datetime \<Rightarrow> string" where
  "strftime_ymdhms d =
     zero_pad4 (year d) @ ''-'' @ zero_pad2 (month d) @ ''-'' @ zero_pad2 (day d) @ '' '' @
     zero_pad2 (hour d) @ '':'' @ zero_pad2 (minute d) @ '':'' @ zero_pad2 (second d)"

text \<open>
  \<open>strptime(s, "%Y-%m-%d %H:%M:%S")\<close> on strings of code points below 256: the library
  matches four digits for the year, one or two digits for every other field (the day may
  also be a space and one digit), a run of whitespace for the blank, and nothing after the
  seconds; the fields must then form a valid date and time. \<open>None\<close> is its \<open>ValueError\<close>.
\<close>

definition is_digit :: "char \<Rightarrow> bool" where
  "is_digit c = (c \<in> set ''0123456789'')"

definition is_space :: "char \<Rightarrow> bool" where
  "is_space c = (of_char c \<in> {9, 10, 11, 12, 13, 28, 29, 30, 31, 32, 133, 160 :: nat})"

definition number :: "string \<Rightarrow> nat" where
  "number ds = foldl (\<lambda>n c. 10 * n + (of_char c - 48)) 0 ds"

definition literal :: "char \<Rightarrow> string \<Rightarrow> string option" where
  "literal c s = (case s of [] \<Rightarrow> None | x # rest \<Rightarrow> if x = c then Some rest else None)"

definition year_field :: "string \<Rightarrow> (nat \<times> string) option" where
  "year_field s =
     (let ds = takeWhile is_digit s
      in if length ds = 4 \<and> 1 \<le> number ds then Some (number ds, dropWhile is_digit s) else None)"

definition two_digit_field :: "nat \<Rightarrow> nat \<Rightarrow> string \<Rightarrow> (nat \<times> string) option" where
  "two_digit_field lo hi s =
     (let ds = takeWhile is_digit s
      in if 1 \<le> length ds \<and> length ds \<le> 2 \<and> lo \<le> number ds \<and> number ds \<le> hi
         then Some (number ds, dropWhile is_digit s) else None)"

definition day_field :: "string \<Rightarrow> (nat \<times> string) option" where
  "day_field s =
     (case s of
        c # d # rest \<Rightarrow>
          if c = CHR '' '' then (if d \<in> set ''123456789'' then Some (number [d], rest) else None)
          else two_digit_field 1 31 s
      | _ \<Rightarrow> two_digit_field 1 31 s)"

definition spaces :: "string \<Rightarrow> string option" where
  "spaces s = (if takeWhile is_space s = [] then None else Some (dropWhile is_space s))"

definition leap_year :: "nat \<Rightarrow> bool" where
  "leap_year y = (y mod 4 = 0 \<and> (y mod 100 \<noteq> 0 \<or> y mod 400 = 0))"

definition days_in_month :: "nat \<Rightarrow> nat \<Rightarrow> nat" where
  "days_in_month y m =
     (if m = 2 then (if leap_year y then 29 else 28)
      else if m \<in> {4, 6, 9, 11} then 30 else 31)"

definition strptime_ymdhms :: "string \<Rightarrow> datetime option" where
  "strptime_ymdhms s = do {
     (y, s1) \<leftarrow> year_field s;
     s2 \<leftarrow> literal CHR ''-'' s1;
     (m, s3) \<leftarrow> two_digit_field 1 12 s2;
     s4 \<leftarrow> literal CHR ''-'' s3;
     (d, s5) \<leftarrow> day_field s4;
     s6 \<leftarrow> spaces s5;
     (H, s7) \<leftarrow> two_digit_field 0 23 s6;
     s8 \<leftarrow> literal CHR '':'' s7;
     (M, s9) \<leftarrow> two_digit_field 0 59 s8;
     s10 \<leftarrow> literal CHR '':'' s9;
     (S, s11) \<leftarrow> two_digit_field 0 59 s10;
     if s11 = [] \<and> d \<le> days_in_month y m
     then Some \<lparr>year = y, month = m, day = d, hour = H, minute = M, second = S\<rparr>
     else None
   }"

section \<open>Specification-level descriptions of the results\<close>

text \<open>The distinct elements of a list in the order of their first occurrence.\<close>

fun first_seen :: "'a list \<Rightarrow> 'a list" where
  "first_seen [] = []"
| "first_seen (x # xs) = x # removeAll x (first_seen xs)"

text \<open>
  Rank de-duplication as the specification words it: scan the list and keep the first entry
  encountered for each rank not seen before.
\<close>

fun keep_first :: "int set \<Rightarrow> word_entry list \<Rightarrow> word_entry list" where
  "keep_first seen [] = []"
| "keep_first seen (w # ws) =
     (if rank w \<in> seen then keep_first seen ws else w # keep_first (insert (rank w) seen) ws)"

text \<open>The rows of one timestamp bucket, in input order.\<close>

definition bucket_rows :: "('ts \<Rightarrow> string) \<Rightarrow> string \<Rightarrow> 'ts db_row list \<Rightarrow> 'ts db_row list" where
  "bucket_rows fmt T rows = filter (\<lambda>r. fmt (row_timestamp r) = T) rows"

text \<open>
  The list of a bucket that gets sorted: for a requested tag the entries of that tag in
  input order; otherwise the entries tag by tag, the tags in the order of their first
  occurrence in the bucket, and in input order within one tag.
\<close>

definition selected_words :: "string option \<Rightarrow> 'ts db_row list \<Rightarrow> word_entry list" where
  "selected_words tag bucket =
     (case requested tag of
        Some t \<Rightarrow> map row_entry (filter (\<lambda>r. row_tag r = t) bucket)
      | None \<Rightarrow> concat (map (\<lambda>t. map row_entry (filter (\<lambda>r. row_tag r = t) bucket))
                          (first_seen (map row_tag bucket))))"

definition output_key :: "string option \<Rightarrow> string" where
  "output_key tag = (case requested tag of Some t \<Rightarrow> t | None \<Rightarrow> ''total'')"

text \<open>The buckets that produce an output entry, in output order.\<close>

definition emitted_buckets :: "('ts \<Rightarrow> string) \<Rightarrow> string option \<Rightarrow> 'ts db_row list
    \<Rightarrow> string list" where
  "emitted_buckets fmt tag rows =
     filter (\<lambda>T. case requested tag of
                   Some t \<Rightarrow> t \<in> row_tag ` set (bucket_rows fmt T rows)
                 | None \<Rightarrow> True)
       (sort (first_seen (map (\<lambda>r. fmt (row_timestamp r)) rows)))"

text \<open>
  The keys of a bucket summary, and the shape a summary has as long as every row seen was
  tagged with one of the three channels: integer counters whose total is the sum of the
  channel counters.
\<close>

definition summary_keys :: "string list" where
  "summary_keys =
     [''total'', ''news'', ''webtoon'', ''youtube'', ''search_word'', ''incorrect_word'',
      ''correct_word'']"

definition channels :: "string set" where
  "channels = {''news'', ''webtoon'', ''youtube''}"

definition summary_shape :: "(string, jval) dict \<Rightarrow> bool" where
  "summary_shape s =
     (\<exists>t n w y sw iws cws.
        s = [(''total'', JInt t), (''news'', JInt n), (''webtoon'', JInt w),
             (''youtube'', JInt y), (''search_word'', JStr sw), (''incorrect_word'', JStrs iws),
             (''correct_word'', JStrs cws)] \<and>
        t = n + w + y)"

text \<open>
  What a bucket's counters should hold after the rows \<open>rows\<close>: the sum of the counts of the
  bucket's rows, and for each channel the sum over the bucket's rows of that tag.
\<close>

definition row_count :: "'ts db_row \<Rightarrow> int" where
  "row_count r = fst (snd (snd (snd (snd r))))"

definition bucket_count :: "('ts \<Rightarrow> string) \<Rightarrow> string \<Rightarrow> 'ts db_row list \<Rightarrow> int" where
  "bucket_count fmt T rows = sum_list (map row_count (bucket_rows fmt T rows))"

definition tag_count :: "('ts \<Rightarrow> string) \<Rightarrow> string \<Rightarrow> string \<Rightarrow> 'ts db_row list \<Rightarrow> int" where
  "tag_count fmt T tg rows =
     sum_list (map row_count (filter (\<lambda>r. row_tag r = tg) (bucket_rows fmt T rows)))"

definition counted :: "int \<Rightarrow> int \<Rightarrow> int \<Rightarrow> int \<Rightarrow> (string, jval) dict \<Rightarrow> bool" where
  "counted t n w y s =
     (\<exists>sw iws cws.
        s = [(''total'', JInt t), (''news'', JInt n), (''webtoon'', JInt w),
             (''youtube'', JInt y), (''search_word'', JStr sw), (''incorrect_word'', JStrs iws),
             (''correct_word'', JStrs cws)])"

text \<open>
  Grouping a list by a key, the groups in order of first occurrence; and the dictionary
  update that adds one more element to such a grouping.
\<close>

definition grouped :: "('a \<Rightarrow> 'k) \<Rightarrow> ('a list \<Rightarrow> 'v) \<Rightarrow> 'a list \<Rightarrow> ('k, 'v) dict" where
  "grouped key val xs =
     map (\<lambda>k. (k, val (filter (\<lambda>x. key x = k) xs))) (first_seen (map key xs))"

definition touch :: "'k \<Rightarrow> 'v \<Rightarrow> ('v \<Rightarrow> 'v) \<Rightarrow> ('k, 'v) dict \<Rightarrow> ('k, 'v) dict" where
  "touch k init f d = dict_upd k f (if k \<in> set (dict_keys d) then d else d @ [(k, init)])"

section \<open>Concrete requests and rows\<close>

definition at_hour :: "nat \<Rightarrow> datetime" where
  "at_hour h = \<lparr>year = 2023, month = 8, day = 28, hour = h, minute = 0, second = 0\<rparr>"

text \<open>A request environment whose database answers every query with \<open>db\<close>.\<close>

definition demo_env :: "datetime db_row fetched \<Rightarrow> datetime env" where
  "demo_env db =
     \<lparr>strptime = strptime_ymdhms, strftime = strftime_ymdhms,
      now = \<lparr>year = 2023, month = 8, day = 28, hour = 22, minute = 12, second = 3\<rparr>,
      now_minus_24h = \<lparr>year = 2023, month = 8, day = 27, hour = 22, minute = 12, second = 3\<rparr>,
      fetch_word_corrections_from_db = (\<lambda>start_date_dt end_date_dt. db)\<rparr>"

text \<open>The two rows of the specification's example scenario (words in ASCII).\<close>

definition two_rows :: "datetime db_row list" where
  "two_rows =
     [(at_hour 4, ''gud-i'', ''gut-i'', ''news'', 31, 1),
      (at_hour 4, ''yeokhwal'', ''yeokhal'', ''webtoon'', 28, 2)]"

text \<open>Three rows of one hour with equal counts, the tags interleaved.\<close>

definition tie_rows :: "datetime db_row list" where
  "tie_rows =
     [(at_hour 4, ''a'', ''A'', ''news'', 5, 1),
      (at_hour 4, ''b'', ''B'', ''webtoon'', 5, 2),
      (at_hour 4, ''c'', ''C'', ''news'', 5, 3)]"

text \<open>Two hours, the later one first; in the earlier hour two tags share rank 1.\<close>

definition collide_rows :: "datetime db_row list" where
  "collide_rows =
     [(at_hour 5, ''c'', ''C'', ''youtube'', 7, 1),
      (at_hour 4, ''a'', ''A'', ''news'', 31, 1),
      (at_hour 4, ''b'', ''B'', ''webtoon'', 28, 1)]"

text \<open>Twelve rows of one hour with twelve different ranks.\<close>

definition many_rows :: "datetime db_row list" where
  "many_rows =
     map (\<lambda>i. (at_hour 4, ''w'', ''c'', ''news'', 100 - int i, int i)) [1..<13]"

text \<open>
  Two hours; in the earlier one the row with the smaller count comes first and both rows
  carry rank 1.
\<close>

definition unsorted_rows :: "datetime db_row list" where
  "unsorted_rows =
     [(at_hour 4, ''a'', ''A'', ''news'', 1, 1),
      (at_hour 4, ''b'', ''B'', ''webtoon'', 5, 1),
      (at_hour 5, ''c'', ''C'', ''news'', 7, 1)]"

text \<open>A row whose tag is none of the three channels.\<close>

definition sports_rows :: "datetime db_row list" where
  "sports_rows =
     [(at_hour 4, ''a'', ''A'', ''news'', 3, 1),
      (at_hour 4, ''b'', ''B'', ''sports'', 2, 2)]"

section \<open>Properties of the ranking aggregation\<close>

lemma take_unique_ranks_eq:
  "length acc < 10 \<Longrightarrow> take_unique_ranks ws U acc = take 10 (acc @ keep_first U ws)"
  by (induction ws arbitrary: U acc) (auto simp: take_Cons')

lemma keep_first_ranks: "w \<in> set (keep_first U ws) \<Longrightarrow> rank w \<notin> U"
  by (induction ws arbitrary: U) (auto split: if_splits)

lemma distinct_keep_first: "distinct (map rank (keep_first U ws))"
  by (induction ws arbitrary: U) (auto dest: keep_first_ranks)

lemma keep_first_find:
  "w \<in> set (keep_first U ws) \<Longrightarrow> find (\<lambda>x. rank x = rank w) ws = Some w"
  by (induction ws arbitrary: U) (auto split: if_splits dest: keep_first_ranks)

lemma subseq_keep_first: "subseq (keep_first U ws) ws"
  by (induction ws arbitrary: U) auto

lemma set_first_seen [simp]: "set (first_seen xs) = set xs"
  by (induction xs) auto

lemma distinct_first_seen [simp]: "distinct (first_seen xs)"
  by (induction xs) (auto simp: distinct_removeAll)

lemma first_seen_snoc:
  "first_seen (xs @ [x]) = (if x \<in> set xs then first_seen xs else first_seen xs @ [x])"
  by (induction xs) auto

lemma touch_grouped:
  assumes step: "\<And>ys. val (ys @ [x]) = f (val ys)" and init: "val [] = init"
  shows "touch (key x) init f (grouped key val xs) = grouped key val (xs @ [x])"
proof (cases "key x \<in> key ` set xs")
  case True
  then show ?thesis
    by (auto simp: touch_def grouped_def dict_upd_def dict_keys_def first_seen_snoc comp_def step)
next
  case False
  then have "filter (\<lambda>y. key y = key x) xs = []"
    by (induction xs) auto
  with False show ?thesis
    using step [of "[]"] init
    by (auto simp: touch_def grouped_def dict_upd_def dict_keys_def first_seen_snoc comp_def)
qed

lemma add_record_touch:
  "add_record fmt pd r =
     touch (fmt (row_timestamp r)) []
       (touch (row_tag r) [] (\<lambda>ws. ws @ [row_entry r])) pd"
  by (auto simp: add_record_def touch_def dict_upd_def dict_set_def dict_keys_def Let_def)


lemma foldl_add_record:
  "foldl (add_record fmt) [] rows =
     grouped (\<lambda>r. fmt (row_timestamp r)) (grouped row_tag (map row_entry)) rows"
proof (induction rows rule: rev_induct)
  case Nil
  show ?case by (simp add: grouped_def)
next
  case (snoc r rows)
  have inner: "grouped row_tag (map row_entry) (ys @ [r]) =
      touch (row_tag r) [] (\<lambda>ws. ws @ [row_entry r]) (grouped row_tag (map row_entry) ys)" for ys
    by (rule touch_grouped [symmetric]) simp_all
  have "touch (fmt (row_timestamp r)) []
          (touch (row_tag r) [] (\<lambda>ws. ws @ [row_entry r]))
          (grouped (\<lambda>r. fmt (row_timestamp r)) (grouped row_tag (map row_entry)) rows) =
        grouped (\<lambda>r. fmt (row_timestamp r)) (grouped row_tag (map row_entry)) (rows @ [r])"
  proof (rule touch_grouped)
    show "grouped row_tag (map row_entry) [] = []"
      by (simp add: grouped_def)
  qed (rule inner)
  with snoc show ?case
    by (simp add: add_record_touch)
qed

lemma insort_key_fst_map:
  "insort_key fst (k, g k) (map (\<lambda>k. (k, g k)) ys) = map (\<lambda>k. (k, g k)) (insort k ys)"
  by (induction ys) auto

lemma sort_key_fst_map:
  "sort_key fst (map (\<lambda>k. (k, g k)) ks) = map (\<lambda>k. (k, g k)) (sort ks)"
  by (induction ks) (simp_all add: insort_key_fst_map)

lemma map_of_graph:
  "map_of (map (\<lambda>k. (k, g k)) ks) k = (if k \<in> set ks then Some (g k) else None)"
  by (induction ks) auto

lemma map_of_grouped:
  "map_of (grouped key val xs) k =
     (if k \<in> key ` set xs then Some (val (filter (\<lambda>x. key x = k) xs)) else None)"
  by (simp add: grouped_def map_of_graph)

lemma emit_bucket_grouped:
  "emit_bucket tag (T, grouped row_tag (map row_entry) bucket) =
     (if (case requested tag of Some t \<Rightarrow> t \<in> row_tag ` set bucket | None \<Rightarrow> True)
      then [dict_set (output_key tag) (JWords (top_words (selected_words tag bucket)))
              [(''timestamp'', JStr T)]]
      else [])"
proof (cases "requested tag")
  case None
  then show ?thesis
    by (simp add: emit_bucket_def output_key_def selected_words_def grouped_def comp_def)
next
  case (Some t)
  then show ?thesis
    by (simp add: emit_bucket_def output_key_def selected_words_def map_of_grouped)
qed

lemma concat_map_if_singleton:
  "concat (map (\<lambda>x. if P x then [h x] else []) xs) = map h (filter P xs)"
  by (induction xs) auto

lemma get_rank_aggregate_eq:
  "get_rank_aggregate fmt tag rows =
     map (\<lambda>T. dict_set (output_key tag)
                 (JWords (top_words (selected_words tag (bucket_rows fmt T rows))))
                 [(''timestamp'', JStr T)])
       (emitted_buckets fmt tag rows)"
proof -
  let ?key = "\<lambda>r. fmt (row_timestamp r)"
  have "sort_key fst (foldl (add_record fmt) [] rows) =
      map (\<lambda>T. (T, grouped row_tag (map row_entry) (bucket_rows fmt T rows)))
        (sort (first_seen (map ?key rows)))"
    unfolding foldl_add_record grouped_def [of ?key] bucket_rows_def
    by (rule sort_key_fst_map)
  then show ?thesis
    by (simp add: get_rank_aggregate_def emitted_buckets_def comp_def emit_bucket_grouped
          concat_map_if_singleton)
qed

subsection \<open>Running the model on the concrete rows\<close>

lemma strftime_at_hour_4: "strftime_ymdhms (at_hour 4) = ''2023-08-28 04:00:00''"
  by (simp add: strftime_ymdhms_def at_hour_def zero_pad4_def zero_pad2_def digit_char_def)

lemma strftime_at_hour_5: "strftime_ymdhms (at_hour 5) = ''2023-08-28 05:00:00''"
  by (simp add: strftime_ymdhms_def at_hour_def zero_pad4_def zero_pad2_def digit_char_def)

lemma strptime_start:
  "strptime_ymdhms ''2023-08-27 22:12:03'' =
     Some \<lparr>year = 2023, month = 8, day = 27, hour = 22, minute = 12, second = 3\<rparr>"
  by code_simp

lemma strptime_end:
  "strptime_ymdhms ''2023-08-28 22:12:03'' =
     Some \<lparr>year = 2023, month = 8, day = 28, hour = 22, minute = 12, second = 3\<rparr>"
  by code_simp

lemma strptime_yesterday: "strptime_ymdhms ''yesterday'' = None"
  by code_simp

lemmas rank_run = get_rank_aggregate_def add_record_def row_timestamp_def row_tag_def
  row_entry_def dict_set_def dict_upd_def dict_keys_def emit_bucket_def requested_def
  top_words_def sort_desc_def strftime_at_hour_4 strftime_at_hour_5

lemmas handler_run = get_rank_def get_word_tags_def parse_window_def demo_env_def
  strptime_start strptime_end strptime_yesterday

subsection \<open>Truncation\<close>

lemma top_words_eq: "top_words ws = take 10 (keep_first {} (sort_desc ws))"
  by (simp add: top_words_def take_unique_ranks_eq)

lemma get_rank_Returned:
  "get_rank env start_time end_time tag = Returned result \<Longrightarrow>
     \<exists>rows. rows \<noteq> [] \<and> result = get_rank_aggregate (strftime env) tag rows"
  by (auto simp: get_rank_def split: sum.splits fetched.splits option.splits if_splits prod.splits)

lemma words_of_emitted:
  "(k, JWords ws) \<in> set (dict_set key (JWords ws') [(''timestamp'', JStr T)]) \<longleftrightarrow>
     k = key \<and> ws = ws'"
  by (auto simp: dict_set_def dict_keys_def)

text \<open>
  Claim C2. Whenever \<open>get_rank\<close> returns a result, every entry of it carries exactly one list of
  words, stored under \<open>total\<close> (no tag requested) or under the requested tag, and that list
  has at most 10 elements.
\<close>

theorem get_rank_truncation:
  assumes "get_rank env start_time end_time tag = Returned result" and "e \<in> set result"
  shows "(\<exists>ws. (output_key tag, JWords ws) \<in> set e) \<and>
         (\<forall>k ws. (k, JWords ws) \<in> set e \<longrightarrow> k = output_key tag \<and> length ws \<le> 10)"
proof -
  from assms(1) obtain rows where "result = get_rank_aggregate (strftime env) tag rows"
    using get_rank_Returned by blast
  with assms(2) obtain T where
    "e = dict_set (output_key tag)
           (JWords (top_words (selected_words tag (bucket_rows (strftime env) T rows))))
           [(''timestamp'', JStr T)]"
    by (auto simp: get_rank_aggregate_eq)
  then show ?thesis
    by (simp add: words_of_emitted top_words_eq)
qed

lemma many_rows_run:
  "get_rank_aggregate strftime_ymdhms None many_rows =
     [[(''timestamp'', JStr ''2023-08-28 04:00:00''),
       (''total'', JWords (take 10 (map row_entry many_rows)))]]"
  by (simp add: rank_run many_rows_def upt_rec)

lemma get_rank_demo:
  "get_rank (demo_env (Rows (Some rows))) ''2023-08-27 22:12:03'' ''2023-08-28 22:12:03'' tag =
     (if rows = [] then HTTPException 204 None
      else Returned (get_rank_aggregate strftime_ymdhms tag rows))"
  by (simp add: handler_run)

theorem get_rank_truncation_witness:
  "get_rank (demo_env (Rows (Some many_rows))) ''2023-08-27 22:12:03'' ''2023-08-28 22:12:03''
       None =
     Returned [[(''timestamp'', JStr ''2023-08-28 04:00:00''),
                (''total'', JWords (take 10 (map row_entry many_rows)))]] \<and>
   ''total'' = output_key None \<and>
   length (take 10 (map row_entry many_rows)) \<le> 10"
proof -
  let ?ws = "take 10 (map row_entry many_rows)"
  let ?e = "[(''timestamp'', JStr ''2023-08-28 04:00:00''), (''total'', JWords ?ws)]"
  have "many_rows \<noteq> []"
    by (simp add: many_rows_def upt_rec)
  then have run: "get_rank (demo_env (Rows (Some many_rows))) ''2023-08-27 22:12:03''
      ''2023-08-28 22:12:03'' None = Returned [?e]"
    by (simp only: get_rank_demo many_rows_run if_False)
  have "?e \<in> set [?e]"
    by simp
  from get_rank_truncation [OF run this]
  have "(''total'', JWords ?ws) \<in> set ?e \<longrightarrow> ''total'' = output_key None \<and> length ?ws \<le> 10"
    by blast
  moreover have "(''total'', JWords ?ws) \<in> set ?e"
    by simp
  ultimately show ?thesis
    using run by blast
qed

lemma set_keep_first: "set (keep_first U ws) \<subseteq> set ws"
  by (induction ws arbitrary: U) auto

lemma emitted_entry:
  assumes "e \<in> set (get_rank_aggregate fmt tag rows)"
  obtains T where "T \<in> set (emitted_buckets fmt tag rows)"
    and "e = dict_set (output_key tag)
           (JWords (top_words (selected_words tag (bucket_rows fmt T rows))))
           [(''timestamp'', JStr T)]"
  using assms by (auto simp: get_rank_aggregate_eq)

lemma timestamp_of_emitted:
  "(k, JStr T) \<in> set (dict_set key (JWords ws) [(''timestamp'', JStr T')]) \<Longrightarrow>
     k = ''timestamp'' \<and> T = T'"
  by (auto simp: dict_set_def dict_keys_def split: if_splits)

lemma selected_words_source:
  assumes "E \<in> set (selected_words tag bucket)"
  shows "\<exists>r\<in>set bucket. row_entry r = E \<and> (\<forall>t. requested tag = Some t \<longrightarrow> row_tag r = t)"
  using assms by (cases "requested tag") (auto simp: selected_words_def)

lemma top_words_nonempty: "ws \<noteq> [] \<Longrightarrow> top_words ws \<noteq> []"
proof -
  assume "ws \<noteq> []"
  moreover have "length (sort_desc ws) = length ws"
    by (simp add: sort_desc_def)
  ultimately obtain x xs where "sort_desc ws = x # xs"
    by (cases "sort_desc ws") auto
  then show ?thesis
    by (simp add: top_words_eq)
qed

lemma sorted_sort_desc:
  "sorted_wrt (\<lambda>a b. occurrence_count a \<ge> occurrence_count b) (sort_desc ws)"
proof -
  have "sorted (map (\<lambda>x. - occurrence_count x) (sort_desc ws))"
    unfolding sort_desc_def by (rule sorted_sort_key)
  then show ?thesis
    unfolding sorted_map by simp
qed

lemma stable_sort_desc:
  "filter (\<lambda>w. occurrence_count w = c) (sort_desc ws) = filter (\<lambda>w. occurrence_count w = c) ws"
  using sort_key_stable [of "\<lambda>x. - occurrence_count x" "- c" ws]
  by (simp add: sort_desc_def)

lemma sorted_wrt_subseq_of:
  "subseq xs ys \<Longrightarrow> sorted_wrt R ys \<Longrightarrow> sorted_wrt R xs"
  by (induction rule: list_emb.induct) (auto dest: list_emb_set)

lemma subseq_take_of: "subseq (take n xs) xs"
  by (induction xs arbitrary: n) (auto simp: take_Cons')

lemma subseq_top_words: "subseq (top_words ws) (sort_desc ws)"
  unfolding top_words_eq
  by (rule subseq_order.order_trans [OF subseq_take_of subseq_keep_first])

lemma top_words_order:
  "sorted_wrt (\<lambda>a b. occurrence_count a \<ge> occurrence_count b) (top_words ws) \<and>
   subseq (filter (\<lambda>w. occurrence_count w = c) (top_words ws))
          (filter (\<lambda>w. occurrence_count w = c) ws)"
proof
  show "sorted_wrt (\<lambda>a b. occurrence_count a \<ge> occurrence_count b) (top_words ws)"
    by (rule sorted_wrt_subseq_of [OF subseq_top_words sorted_sort_desc])
  have "subseq (filter (\<lambda>w. occurrence_count w = c) (top_words ws))
          (filter (\<lambda>w. occurrence_count w = c) (sort_desc ws))"
    by (rule subseq_filter) (rule subseq_top_words)
  then show "subseq (filter (\<lambda>w. occurrence_count w = c) (top_words ws))
          (filter (\<lambda>w. occurrence_count w = c) ws)"
    by (simp add: stable_sort_desc)
qed

lemma emitted_buckets_sorted:
  "sorted (emitted_buckets fmt tag rows) \<and> distinct (emitted_buckets fmt tag rows)"
  by (simp add: emitted_buckets_def sorted_wrt_filter)


subsection \<open>Rank de-duplication\<close>

lemma ranks_keep_first: "rank ` set (keep_first U ws) = rank ` set ws - U"
  by (induction ws arbitrary: U) auto

lemma length_keep_first: "length (keep_first {} ws) = card (rank ` set ws)"
proof -
  have "length (keep_first {} ws) = length (map rank (keep_first {} ws))"
    by simp
  also have "\<dots> = card (set (map rank (keep_first {} ws)))"
    by (rule distinct_card [symmetric]) (rule distinct_keep_first)
  also have "\<dots> = card (rank ` set ws)"
    by (simp add: ranks_keep_first)
  finally show ?thesis .
qed

lemma set_sort_desc: "set (sort_desc ws) = set ws"
  by (simp add: sort_desc_def)

text \<open>
  Claim C1. In every emitted word list the rank values are pairwise distinct. The entry is
  the bucket's timestamp together with that list, and the list is obtained from the scan
  order of the bucket: the bucket's selected entries arranged by descending count (equal
  counts in the order they were selected). Scanning keeps the first entry met for each rank
  and stops at ten, so the list has as many entries as the scan has ranks (at most ten),
  every kept entry is the first of the scan with its rank, and a later entry with a rank
  already seen is dropped whatever its words are.
\<close>

theorem get_rank_rank_dedup:
  assumes "e \<in> set (get_rank_aggregate fmt tag rows)" and "(k, JWords ws) \<in> set e"
  shows "distinct (map rank ws) \<and>
         (\<exists>T scan.
            e = dict_set (output_key tag) (JWords ws) [(''timestamp'', JStr T)] \<and>
            sorted_wrt (\<lambda>a b. occurrence_count a \<ge> occurrence_count b) scan \<and>
            (\<forall>c. filter (\<lambda>w. occurrence_count w = c) scan =
                   filter (\<lambda>w. occurrence_count w = c)
                     (selected_words tag (bucket_rows fmt T rows))) \<and>
            ws = take 10 (keep_first {} scan) \<and>
            length ws = min 10 (card (rank ` set scan)) \<and>
            (\<forall>w\<in>set ws. find (\<lambda>x. rank x = rank w) scan = Some w))"
proof -
  from assms(1) obtain T where
    e: "e = dict_set (output_key tag)
           (JWords (top_words (selected_words tag (bucket_rows fmt T rows))))
           [(''timestamp'', JStr T)]"
    by (rule emitted_entry)
  let ?sel = "selected_words tag (bucket_rows fmt T rows)"
  let ?scan = "sort_desc ?sel"
  from assms(2) e have ws: "ws = take 10 (keep_first {} ?scan)"
    by (simp add: words_of_emitted top_words_eq)
  with e have e': "e = dict_set (output_key tag) (JWords ws) [(''timestamp'', JStr T)]"
    by (simp add: top_words_eq)
  have dist: "distinct (map rank ws)"
    unfolding ws take_map [symmetric] by (rule distinct_take) (rule distinct_keep_first)
  have sorted: "sorted_wrt (\<lambda>a b. occurrence_count a \<ge> occurrence_count b) ?scan"
    by (rule sorted_sort_desc)
  have stable: "\<forall>c. filter (\<lambda>w. occurrence_count w = c) ?scan =
      filter (\<lambda>w. occurrence_count w = c) ?sel"
    by (simp add: stable_sort_desc)
  have len: "length ws = min 10 (card (rank ` set ?scan))"
    unfolding ws by (simp add: length_keep_first min.commute)
  have first: "\<forall>w\<in>set ws. find (\<lambda>x. rank x = rank w) ?scan = Some w"
    using ws keep_first_find [of _ "{}" ?scan] by (auto dest: in_set_takeD)
  from e' sorted stable ws len first have "\<exists>T scan.
            e = dict_set (output_key tag) (JWords ws) [(''timestamp'', JStr T)] \<and>
            sorted_wrt (\<lambda>a b. occurrence_count a \<ge> occurrence_count b) scan \<and>
            (\<forall>c. filter (\<lambda>w. occurrence_count w = c) scan =
                   filter (\<lambda>w. occurrence_count w = c)
                     (selected_words tag (bucket_rows fmt T rows))) \<and>
            ws = take 10 (keep_first {} scan) \<and>
            length ws = min 10 (card (rank ` set scan)) \<and>
            (\<forall>w\<in>set ws. find (\<lambda>x. rank x = rank w) scan = Some w)"
    by (intro exI [of _ T] exI [of _ ?scan] conjI)
  with dist show ?thesis
    by (rule conjI)
qed

subsection \<open>Soundness of the emitted entries\<close>

text \<open>
  Claim C10. Every word entry listed in an output entry that shows the timestamp string
  \<open>T\<close> comes from one input row: that row formats to \<open>T\<close>, its four fields are exactly the
  entry's, and when a tag was requested the row carries that tag.
\<close>

theorem get_rank_sound:
  assumes "e \<in> set (get_rank_aggregate fmt tag rows)"
    and "(''timestamp'', JStr T) \<in> set e" and "(k, JWords ws) \<in> set e" and "E \<in> set ws"
  shows "\<exists>ts incorrect correct content_tag cnt rnk.
           (ts, incorrect, correct, content_tag, cnt, rnk) \<in> set rows \<and> fmt ts = T \<and>
           E = \<lparr>incorrect_word = incorrect, correct_word = correct,
                occurrence_count = cnt, rank = rnk\<rparr> \<and>
           (\<forall>t. requested tag = Some t \<longrightarrow> content_tag = t)"
proof -
  from assms(1) obtain T' where
    e: "e = dict_set (output_key tag)
           (JWords (top_words (selected_words tag (bucket_rows fmt T' rows))))
           [(''timestamp'', JStr T')]"
    by (rule emitted_entry)
  from assms(2) e have "T = T'"
    using timestamp_of_emitted by blast
  from assms(3) e have "ws = top_words (selected_words tag (bucket_rows fmt T' rows))"
    by (simp add: words_of_emitted)
  with assms(4) have "E \<in> set (keep_first {} (sort_desc (selected_words tag (bucket_rows fmt T' rows))))"
    by (auto simp: top_words_eq dest: in_set_takeD)
  then have "E \<in> set (selected_words tag (bucket_rows fmt T' rows))"
    using set_keep_first by (fastforce simp: sort_desc_def)
  then obtain r where r: "r \<in> set (bucket_rows fmt T' rows)" "row_entry r = E"
      "\<forall>t. requested tag = Some t \<longrightarrow> row_tag r = t"
    using selected_words_source by blast
  obtain ts incorrect correct content_tag cnt rnk
    where [simp]: "r = (ts, incorrect, correct, content_tag, cnt, rnk)"
    by (cases r)
  from r \<open>T = T'\<close> have "(ts, incorrect, correct, content_tag, cnt, rnk) \<in> set rows"
    and "fmt ts = T"
    and "E = \<lparr>incorrect_word = incorrect, correct_word = correct,
                occurrence_count = cnt, rank = rnk\<rparr>"
    and "\<forall>t. requested tag = Some t \<longrightarrow> content_tag = t"
    by (auto simp: bucket_rows_def row_entry_def row_tag_def row_timestamp_def)
  then show ?thesis
    by blast
qed

subsection \<open>Ordering of buckets and of entries\<close>

text \<open>
  Claim C3, as amended. The output is one entry per emitted bucket, the buckets in strictly
  ascending order of their timestamp strings. Within a word list the counts never increase,
  and entries of equal count keep the order they have in the list that was sorted
  (\<open>selected_words\<close>): input order for a requested tag; without a tag, grouped by tag in
  order of each tag's first row in the bucket, and input order within a tag.
\<close>

theorem get_rank_ordering:
  "(\<exists>Ts. sorted Ts \<and> distinct Ts \<and>
      get_rank_aggregate fmt tag rows =
        map (\<lambda>T. dict_set (output_key tag)
                   (JWords (top_words (selected_words tag (bucket_rows fmt T rows))))
                   [(''timestamp'', JStr T)]) Ts) \<and>
   sorted_wrt (\<lambda>a b. occurrence_count a \<ge> occurrence_count b) (top_words sel) \<and>
   subseq (filter (\<lambda>w. occurrence_count w = c) (top_words sel))
          (filter (\<lambda>w. occurrence_count w = c) sel)"
  using get_rank_aggregate_eq [of fmt tag rows] emitted_buckets_sorted [of fmt tag rows]
    top_words_order [of sel c] by blast


lemma requested_Some: "t \<noteq> [] \<Longrightarrow> requested (Some t) = Some t"
  by (simp add: requested_def)

lemma set_filter_has_tag:
  "set (filter (\<lambda>T. t \<in> g ` set (filter (\<lambda>r. f r = T) xs)) (sort (first_seen (map f xs)))) =
     f ` {r \<in> set xs. g r = t}"
proof -
  have "f xa \<in> f ` {r \<in> set xs. g r = g xb}" if "xb \<in> set xs" "f xb = f xa" for xa xb
    using that by (intro image_eqI [where x = xb]) simp_all
  then show ?thesis
    by auto
qed

lemma set_emitted_buckets_tag:
  "requested tag = Some t \<Longrightarrow>
     set (emitted_buckets fmt tag rows) =
       (\<lambda>r. fmt (row_timestamp r)) ` {r \<in> set rows. row_tag r = t}"
  unfolding emitted_buckets_def bucket_rows_def
  by (simp only: option.case set_filter_has_tag)

subsection \<open>Buckets without the requested tag\<close>

text \<open>
  Claim C4. With a non-empty requested tag, every output entry belongs to a bucket holding a
  row of that tag and lists at least one word; there are exactly as many entries as buckets
  holding the tag; and when no row has the tag the result is the empty list.
\<close>

theorem get_rank_tag_omission:
  assumes "tag = Some t" and "t \<noteq> []"
  shows "(\<forall>e\<in>set (get_rank_aggregate fmt tag rows).
            \<exists>T ws. e = dict_set t (JWords ws) [(''timestamp'', JStr T)] \<and> ws \<noteq> [] \<and>
                   (\<exists>r\<in>set rows. fmt (row_timestamp r) = T \<and> row_tag r = t)) \<and>
         length (get_rank_aggregate fmt tag rows) =
           card ((\<lambda>r. fmt (row_timestamp r)) ` {r \<in> set rows. row_tag r = t}) \<and>
         ((\<forall>r\<in>set rows. row_tag r \<noteq> t) \<longrightarrow> get_rank_aggregate fmt tag rows = [])"
proof -
  from assms have req: "requested tag = Some t"
    by (simp add: requested_Some)
  then have key: "output_key tag = t"
    by (simp add: output_key_def)
  have entries: "\<exists>T ws. e = dict_set t (JWords ws) [(''timestamp'', JStr T)] \<and> ws \<noteq> [] \<and>
                   (\<exists>r\<in>set rows. fmt (row_timestamp r) = T \<and> row_tag r = t)"
    if "e \<in> set (get_rank_aggregate fmt tag rows)" for e
  proof -
    from that obtain T where T: "T \<in> set (emitted_buckets fmt tag rows)"
      and e: "e = dict_set (output_key tag)
           (JWords (top_words (selected_words tag (bucket_rows fmt T rows))))
           [(''timestamp'', JStr T)]"
      by (rule emitted_entry)
    from T req obtain r where r: "r \<in> set rows" "fmt (row_timestamp r) = T" "row_tag r = t"
      by (auto simp: set_emitted_buckets_tag)
    then have "selected_words tag (bucket_rows fmt T rows) \<noteq> []"
      using req by (auto simp: selected_words_def bucket_rows_def filter_empty_conv)
    then have "top_words (selected_words tag (bucket_rows fmt T rows)) \<noteq> []"
      by (rule top_words_nonempty)
    with e key r show ?thesis
      by blast
  qed
  have "length (get_rank_aggregate fmt tag rows) = length (emitted_buckets fmt tag rows)"
    by (simp add: get_rank_aggregate_eq)
  also have "\<dots> = card (set (emitted_buckets fmt tag rows))"
    using emitted_buckets_sorted [of fmt tag rows] by (simp add: distinct_card)
  finally have len: "length (get_rank_aggregate fmt tag rows) =
      card ((\<lambda>r. fmt (row_timestamp r)) ` {r \<in> set rows. row_tag r = t})"
    using req by (simp add: set_emitted_buckets_tag)
  have "get_rank_aggregate fmt tag rows = []" if "\<forall>r\<in>set rows. row_tag r \<noteq> t"
  proof -
    from that have "{r \<in> set rows. row_tag r = t} = {}"
      by blast
    with len show ?thesis
      by simp
  qed
  with entries len show ?thesis
    by blast
qed

lemma collide_rows_total:
  "get_rank_aggregate strftime_ymdhms None collide_rows =
     [[(''timestamp'', JStr ''2023-08-28 04:00:00''),
       (''total'', JWords [\<lparr>incorrect_word = ''a'', correct_word = ''A'',
                             occurrence_count = 31, rank = 1\<rparr>])],
      [(''timestamp'', JStr ''2023-08-28 05:00:00''),
       (''total'', JWords [\<lparr>incorrect_word = ''c'', correct_word = ''C'',
                             occurrence_count = 7, rank = 1\<rparr>])]]"
  by (simp add: rank_run collide_rows_def)

lemma collide_rows_news:
  "get_rank_aggregate strftime_ymdhms (Some ''news'') collide_rows =
     [[(''timestamp'', JStr ''2023-08-28 04:00:00''),
       (''news'', JWords [\<lparr>incorrect_word = ''a'', correct_word = ''A'',
                            occurrence_count = 31, rank = 1\<rparr>])]]"
  by (simp add: rank_run collide_rows_def)

lemma collide_rows_sports:
  "get_rank_aggregate strftime_ymdhms (Some ''sports'') collide_rows = []"
  by (simp add: rank_run collide_rows_def)

lemma tie_rows_total:
  "get_rank_aggregate strftime_ymdhms None tie_rows =
     [[(''timestamp'', JStr ''2023-08-28 04:00:00''),
       (''total'', JWords
          [\<lparr>incorrect_word = ''a'', correct_word = ''A'', occurrence_count = 5, rank = 1\<rparr>,
           \<lparr>incorrect_word = ''c'', correct_word = ''C'', occurrence_count = 5, rank = 3\<rparr>,
           \<lparr>incorrect_word = ''b'', correct_word = ''B'', occurrence_count = 5, rank = 2\<rparr>])]]"
  by (simp add: rank_run tie_rows_def)

lemma tie_not_subseq:
  "\<not> subseq
     [\<lparr>incorrect_word = ''a'', correct_word = ''A'', occurrence_count = 5, rank = 1\<rparr>,
      \<lparr>incorrect_word = ''c'', correct_word = ''C'', occurrence_count = 5, rank = 3\<rparr>,
      \<lparr>incorrect_word = ''b'', correct_word = ''B'', occurrence_count = 5, rank = 2\<rparr>]
     (map row_entry tie_rows)"
  by (simp add: tie_rows_def row_entry_def)


lemma unsorted_rows_total:
  "get_rank_aggregate strftime_ymdhms None unsorted_rows =
     [[(''timestamp'', JStr ''2023-08-28 04:00:00''),
       (''total'', JWords [\<lparr>incorrect_word = ''b'', correct_word = ''B'',
                             occurrence_count = 5, rank = 1\<rparr>])],
      [(''timestamp'', JStr ''2023-08-28 05:00:00''),
       (''total'', JWords [\<lparr>incorrect_word = ''c'', correct_word = ''C'',
                             occurrence_count = 7, rank = 1\<rparr>])]]"
  by (simp add: rank_run unsorted_rows_def Let_def)

lemma unsorted_rows_scan:
  "sort_desc (selected_words None (bucket_rows strftime_ymdhms ''2023-08-28 04:00:00''
       unsorted_rows)) =
     [\<lparr>incorrect_word = ''b'', correct_word = ''B'', occurrence_count = 5, rank = 1\<rparr>,
      \<lparr>incorrect_word = ''a'', correct_word = ''A'', occurrence_count = 1, rank = 1\<rparr>]"
  by (simp add: sort_desc_def selected_words_def requested_def bucket_rows_def unsorted_rows_def
      row_timestamp_def row_tag_def row_entry_def strftime_at_hour_4 strftime_at_hour_5)

theorem get_rank_rank_dedup_witness:
  "get_rank_aggregate strftime_ymdhms None unsorted_rows =
     [[(''timestamp'', JStr ''2023-08-28 04:00:00''),
       (''total'', JWords [\<lparr>incorrect_word = ''b'', correct_word = ''B'',
                             occurrence_count = 5, rank = 1\<rparr>])],
      [(''timestamp'', JStr ''2023-08-28 05:00:00''),
       (''total'', JWords [\<lparr>incorrect_word = ''c'', correct_word = ''C'',
                             occurrence_count = 7, rank = 1\<rparr>])]] \<and>
   sort_desc (selected_words None (bucket_rows strftime_ymdhms ''2023-08-28 04:00:00''
       unsorted_rows)) =
     [\<lparr>incorrect_word = ''b'', correct_word = ''B'', occurrence_count = 5, rank = 1\<rparr>,
      \<lparr>incorrect_word = ''a'', correct_word = ''A'', occurrence_count = 1, rank = 1\<rparr>] \<and>
   distinct (map rank [\<lparr>incorrect_word = ''b'', correct_word = ''B'',
                          occurrence_count = 5, rank = 1\<rparr>])"
proof -
  let ?b = "\<lparr>incorrect_word = ''b'', correct_word = ''B'', occurrence_count = 5, rank = 1\<rparr>"
  let ?e = "[(''timestamp'', JStr ''2023-08-28 04:00:00''), (''total'', JWords [?b])]"
  have mem: "?e \<in> set (get_rank_aggregate strftime_ymdhms None unsorted_rows)"
    by (simp add: unsorted_rows_total)
  have kw: "(''total'', JWords [?b]) \<in> set ?e"
    by simp
  have "distinct (map rank [?b])"
    by (rule conjunct1 [OF get_rank_rank_dedup [OF mem kw]])
  with unsorted_rows_total unsorted_rows_scan show ?thesis
    by (intro conjI)
qed

theorem get_rank_sound_witness:
  "get_rank_aggregate strftime_ymdhms (Some ''news'') collide_rows =
     [[(''timestamp'', JStr ''2023-08-28 04:00:00''),
       (''news'', JWords [\<lparr>incorrect_word = ''a'', correct_word = ''A'',
                            occurrence_count = 31, rank = 1\<rparr>])]] \<and>
   (\<exists>ts incorrect correct content_tag cnt rnk.
      (ts, incorrect, correct, content_tag, cnt, rnk) \<in> set collide_rows \<and>
      strftime_ymdhms ts = ''2023-08-28 04:00:00'' \<and>
      \<lparr>incorrect_word = ''a'', correct_word = ''A'', occurrence_count = 31, rank = 1\<rparr> =
        \<lparr>incorrect_word = incorrect, correct_word = correct,
           occurrence_count = cnt, rank = rnk\<rparr> \<and>
      content_tag = ''news'')"
proof -
  let ?a = "\<lparr>incorrect_word = ''a'', correct_word = ''A'', occurrence_count = 31, rank = 1\<rparr>"
  let ?e = "[(''timestamp'', JStr ''2023-08-28 04:00:00''), (''news'', JWords [?a])]"
  have mem: "?e \<in> set (get_rank_aggregate strftime_ymdhms (Some ''news'') collide_rows)"
    by (simp add: collide_rows_news)
  have ts: "(''timestamp'', JStr ''2023-08-28 04:00:00'') \<in> set ?e"
    by simp
  have kw: "(''news'', JWords [?a]) \<in> set ?e"
    by simp
  have el: "?a \<in> set [?a]"
    by simp
  have req: "requested (Some ''news'') = Some ''news''"
    by (simp add: requested_def)
  from get_rank_sound [OF mem ts kw el]
  obtain ts incorrect correct content_tag cnt rnk where
    "(ts, incorrect, correct, content_tag, cnt, rnk) \<in> set collide_rows"
    "strftime_ymdhms ts = ''2023-08-28 04:00:00''"
    "?a = \<lparr>incorrect_word = incorrect, correct_word = correct,
            occurrence_count = cnt, rank = rnk\<rparr>"
    "\<forall>t. requested (Some ''news'') = Some t \<longrightarrow> content_tag = t"
    by blast
  with req have "\<exists>ts incorrect correct content_tag cnt rnk.
      (ts, incorrect, correct, content_tag, cnt, rnk) \<in> set collide_rows \<and>
      strftime_ymdhms ts = ''2023-08-28 04:00:00'' \<and>
      ?a = \<lparr>incorrect_word = incorrect, correct_word = correct,
             occurrence_count = cnt, rank = rnk\<rparr> \<and>
      content_tag = ''news''"
    by blast
  with collide_rows_news show ?thesis
    by (rule conjI)
qed

text \<open>
  Counterexample to claim C3 as stated: three rows of one hour with equal counts, tagged
  news, webtoon, news. The third row is emitted before the second, so entries of equal
  count do not keep the order of the input rows.
\<close>

theorem get_rank_tie_order_counterexample:
  "get_rank_aggregate strftime_ymdhms None tie_rows =
     [[(''timestamp'', JStr ''2023-08-28 04:00:00''),
       (''total'', JWords
          [\<lparr>incorrect_word = ''a'', correct_word = ''A'', occurrence_count = 5, rank = 1\<rparr>,
           \<lparr>incorrect_word = ''c'', correct_word = ''C'', occurrence_count = 5, rank = 3\<rparr>,
           \<lparr>incorrect_word = ''b'', correct_word = ''B'', occurrence_count = 5, rank = 2\<rparr>])]] \<and>
   map row_entry tie_rows =
     [\<lparr>incorrect_word = ''a'', correct_word = ''A'', occurrence_count = 5, rank = 1\<rparr>,
      \<lparr>incorrect_word = ''b'', correct_word = ''B'', occurrence_count = 5, rank = 2\<rparr>,
      \<lparr>incorrect_word = ''c'', correct_word = ''C'', occurrence_count = 5, rank = 3\<rparr>] \<and>
   \<not> subseq
     [\<lparr>incorrect_word = ''a'', correct_word = ''A'', occurrence_count = 5, rank = 1\<rparr>,
      \<lparr>incorrect_word = ''c'', correct_word = ''C'', occurrence_count = 5, rank = 3\<rparr>,
      \<lparr>incorrect_word = ''b'', correct_word = ''B'', occurrence_count = 5, rank = 2\<rparr>]
     (map row_entry tie_rows)"
proof -
  have "map row_entry tie_rows =
     [\<lparr>incorrect_word = ''a'', correct_word = ''A'', occurrence_count = 5, rank = 1\<rparr>,
      \<lparr>incorrect_word = ''b'', correct_word = ''B'', occurrence_count = 5, rank = 2\<rparr>,
      \<lparr>incorrect_word = ''c'', correct_word = ''C'', occurrence_count = 5, rank = 3\<rparr>]"
    by (simp add: tie_rows_def row_entry_def)
  with tie_rows_total tie_not_subseq show ?thesis
    by blast
qed

theorem get_rank_tag_omission_witness:
  "Some ''sports'' = Some ''sports'' \<and> ''sports'' \<noteq> [] \<and>
   get_rank_aggregate strftime_ymdhms (Some ''sports'') collide_rows = [] \<and>
   get_rank (demo_env (Rows (Some collide_rows))) ''2023-08-27 22:12:03''
     ''2023-08-28 22:12:03'' (Some ''sports'') = Returned []"
proof -
  have tag: "Some ''sports'' = Some ''sports''" and ne: "''sports'' \<noteq> []"
    by simp_all
  have absent: "\<forall>r\<in>set collide_rows. row_tag r \<noteq> ''sports''"
    by (simp add: collide_rows_def row_tag_def)
  from get_rank_tag_omission [OF tag ne, of strftime_ymdhms collide_rows]
  have "(\<forall>r\<in>set collide_rows. row_tag r \<noteq> ''sports'') \<longrightarrow>
      get_rank_aggregate strftime_ymdhms (Some ''sports'') collide_rows = []"
    by (elim conjE)
  from this absent have empty:
    "get_rank_aggregate strftime_ymdhms (Some ''sports'') collide_rows = []"
    by (rule mp)
  have "collide_rows \<noteq> []"
    by (simp add: collide_rows_def)
  then have "get_rank (demo_env (Rows (Some collide_rows))) ''2023-08-27 22:12:03''
     ''2023-08-28 22:12:03'' (Some ''sports'') = Returned []"
    by (simp only: get_rank_demo empty if_False)
  with tag ne empty show ?thesis
    by blast
qed

section \<open>Properties of the mention aggregation\<close>

lemma and_then_simps [simp]:
  "and_then (Inl e) f = Inl e" "and_then (Inr x) f = f x"
  by (simp_all add: and_then_def)

lemma and_then_Inr_iff:
  "and_then m f = Inr y \<longleftrightarrow> (\<exists>x. m = Inr x \<and> f x = Inr y)"
  by (cases m) auto

lemma dict_keys_dict_set:
  "dict_keys (dict_set k v d) = (if k \<in> set (dict_keys d) then dict_keys d else dict_keys d @ [k])"
  by (auto simp: dict_set_def dict_keys_def)

lemma values_dict_set: "snd ` set (dict_set k v d) \<subseteq> insert v (snd ` set d)"
  by (auto simp: dict_set_def dict_keys_def split: if_splits)

lemma map_of_replace:
  "map_of (map (\<lambda>(k', v'). if k' = k then (k', v) else (k', v')) d) k' =
     (if k' = k then (case map_of d k of None \<Rightarrow> None | Some u \<Rightarrow> Some v) else map_of d k')"
  by (induction d) auto

lemma map_of_dict_set:
  "map_of (dict_set k v d) k' = (if k' = k then Some v else map_of d k')"
proof (cases "map_of d k")
  case None
  then have "k \<notin> set (dict_keys d)"
    by (simp add: dict_keys_def map_of_eq_None_iff)
  with None show ?thesis
    by (auto simp: dict_set_def map_add_def split: option.splits)
next
  case (Some u)
  then have "k \<in> set (dict_keys d)"
    unfolding dict_keys_def by (metis map_of_eq_None_iff option.distinct(1) set_map)
  with Some show ?thesis
    by (simp add: dict_set_def map_of_replace)
qed

lemma map_of_Some_key: "map_of d k = Some v \<Longrightarrow> k \<in> set (dict_keys d)"
  unfolding dict_keys_def by (metis map_of_eq_None_iff option.distinct(1) set_map)

lemma map_of_dict_merge:
  "k \<notin> set (dict_keys s) \<Longrightarrow> map_of (dict_merge d s) k = map_of d k"
  unfolding dict_merge_def
  by (induction s arbitrary: d) (auto simp: dict_keys_def map_of_dict_set)

lemma summary_shape_new: "summary_shape (new_summary sw)"
  by (simp add: summary_shape_def new_summary_def)

lemma summary_shape_keys: "summary_shape s \<Longrightarrow> dict_keys s = summary_keys"
  by (auto simp: summary_shape_def summary_keys_def dict_keys_def)

lemma iadd_keys: "iadd k n d = Inr d' \<Longrightarrow> dict_keys d' = dict_keys d"
  by (auto simp: iadd_def dict_keys_dict_set split: option.splits jval.splits
      dest: map_of_Some_key)

lemma append_new_keys: "append_new k w d = Inr d' \<Longrightarrow> dict_keys d' = dict_keys d"
  by (auto simp: append_new_def dict_keys_dict_set split: option.splits jval.splits if_splits
      dest: map_of_Some_key)

lemma update_summary_keys:
  assumes "update_summary sw iw cw tg c s = Inr s'"
  shows "dict_keys s' = dict_keys s"
proof -
  from assms obtain c1 c2 where c1: "iadd tg c s = Inr c1" and c2: "iadd ''total'' c c1 = Inr c2"
    and rest: "(if sw = iw \<or> sw = cw
        then and_then (append_new ''incorrect_word'' iw c2) (append_new ''correct_word'' cw)
        else Inr c2) = Inr s'"
    unfolding update_summary_def and_then_Inr_iff by blast
  have "dict_keys s' = dict_keys c2"
  proof (cases "sw = iw \<or> sw = cw")
    case True
    with rest have "and_then (append_new ''incorrect_word'' iw c2)
        (append_new ''correct_word'' cw) = Inr s'"
      by (simp split: if_splits)
    then obtain c3 where "append_new ''incorrect_word'' iw c2 = Inr c3"
      and "append_new ''correct_word'' cw c3 = Inr s'"
      by (auto simp: and_then_Inr_iff)
    then show ?thesis
      by (simp add: append_new_keys)
  next
    case False
    with rest show ?thesis
      by simp
  qed
  with c1 c2 show ?thesis
    by (simp add: iadd_keys)
qed

lemma update_summary_unknown:
  "tg \<notin> set (dict_keys s) \<Longrightarrow> update_summary sw iw cw tg c s = Inl (KeyError tg)"
proof -
  assume "tg \<notin> set (dict_keys s)"
  then have "map_of s tg = None"
    by (simp add: dict_keys_def map_of_eq_None_iff)
  then show ?thesis
    by (simp add: update_summary_def iadd_def)
qed

lemma update_summary_shape:
  assumes "summary_shape s" and "tg \<in> channels"
  shows "\<exists>s'. update_summary sw iw cw tg c s = Inr s' \<and> summary_shape s'"
proof -
  from assms(1) obtain t n w y sw' iws cws where
    s: "s = [(''total'', JInt t), (''news'', JInt n), (''webtoon'', JInt w),
             (''youtube'', JInt y), (''search_word'', JStr sw'), (''incorrect_word'', JStrs iws),
             (''correct_word'', JStrs cws)]" and sum: "t = n + w + y"
    unfolding summary_shape_def by blast
  from assms(2) consider "tg = ''news''" | "tg = ''webtoon''" | "tg = ''youtube''"
    by (auto simp: channels_def)
  then show ?thesis
  proof cases
    case 1
    with s sum show ?thesis
      by (simp add: update_summary_def iadd_def append_new_def dict_set_def dict_keys_def
            summary_shape_def)
  next
    case 2
    with s sum show ?thesis
      by (simp add: update_summary_def iadd_def append_new_def dict_set_def dict_keys_def
            summary_shape_def)
  next
    case 3
    with s sum show ?thesis
      by (simp add: update_summary_def iadd_def append_new_def dict_set_def dict_keys_def
            summary_shape_def)
  qed
qed

lemma mention_step_eq:
  "mention_step fmt sw mc (ts, iw, cw, tg, c, rk) =
     (case map_of (if fmt ts \<in> set (dict_keys mc) then mc else mc @ [(fmt ts, new_summary sw)])
             (fmt ts) of
        None \<Rightarrow> Inl (KeyError (fmt ts))
      | Some counts \<Rightarrow>
          and_then (update_summary sw iw cw tg c counts)
            (\<lambda>counts'. Inr (dict_set (fmt ts) counts'
               (if fmt ts \<in> set (dict_keys mc) then mc else mc @ [(fmt ts, new_summary sw)]))))"
proof (cases "fmt ts \<in> set (dict_keys mc)")
  case True
  then show ?thesis
    by (simp add: mention_step_def Let_def)
next
  case False
  then have "dict_set (fmt ts) (new_summary sw) mc = mc @ [(fmt ts, new_summary sw)]"
    by (simp add: dict_set_def)
  with False show ?thesis
    by (simp add: mention_step_def Let_def cong: option.case_cong)
qed

lemma lookup_touched:
  "\<exists>counts. map_of (if T \<in> set (dict_keys mc) then mc else mc @ [(T, new)]) T = Some counts \<and>
     counts \<in> insert new (snd ` set mc)"
proof (cases "T \<in> set (dict_keys mc)")
  case True
  then obtain counts where "map_of mc T = Some counts"
    unfolding dict_keys_def by (metis map_of_eq_None_iff not_Some_eq set_map)
  moreover from this have "counts \<in> snd ` set mc"
    by (auto dest: map_of_SomeD intro: rev_image_eqI)
  ultimately show ?thesis
    using True by auto
next
  case False
  then have "map_of mc T = None"
    by (simp add: dict_keys_def map_of_eq_None_iff)
  with False show ?thesis
    by (simp add: map_add_def)
qed

lemma mention_step_cases:
  obtains counts where "counts \<in> insert (new_summary sw) (snd ` set mc)"
    and "mention_step fmt sw mc (ts, iw, cw, tg, c, rk) =
      and_then (update_summary sw iw cw tg c counts)
        (\<lambda>counts'. Inr (dict_set (fmt ts) counts'
           (if fmt ts \<in> set (dict_keys mc) then mc else mc @ [(fmt ts, new_summary sw)])))"
proof -
  obtain counts where
    "map_of (if fmt ts \<in> set (dict_keys mc) then mc else mc @ [(fmt ts, new_summary sw)])
       (fmt ts) = Some counts"
    and "counts \<in> insert (new_summary sw) (snd ` set mc)"
    using lookup_touched [of "fmt ts" mc "new_summary sw"] by blast
  then show ?thesis
    using that by (simp only: mention_step_eq option.case)
qed

lemma values_touched:
  "snd ` set (dict_set T v (if T \<in> set (dict_keys mc) then mc else mc @ [(T, new)]))
     \<subseteq> insert v (insert new (snd ` set mc))"
  using values_dict_set [of T v "if T \<in> set (dict_keys mc) then mc else mc @ [(T, new)]"]
  by (auto split: if_splits)

lemma keys_touched:
  "dict_keys (dict_set T v (if T \<in> set (dict_keys mc) then mc else mc @ [(T, new)])) =
     (if T \<in> set (dict_keys mc) then dict_keys mc else dict_keys mc @ [T])"
  by (simp add: dict_keys_dict_set) (simp add: dict_keys_def)

lemma mention_step_keys:
  assumes "mention_step fmt sw mc r = Inr mc'"
  shows "dict_keys mc' =
     (if fmt (row_timestamp r) \<in> set (dict_keys mc) then dict_keys mc
      else dict_keys mc @ [fmt (row_timestamp r)])"
proof -
  obtain ts iw cw tg c rk where r: "r = (ts, iw, cw, tg, c, rk)"
    by (cases r)
  obtain counts where
    "mention_step fmt sw mc (ts, iw, cw, tg, c, rk) =
      and_then (update_summary sw iw cw tg c counts)
        (\<lambda>counts'. Inr (dict_set (fmt ts) counts'
           (if fmt ts \<in> set (dict_keys mc) then mc else mc @ [(fmt ts, new_summary sw)])))"
    by (rule mention_step_cases)
  with assms r obtain counts' where
    "mc' = dict_set (fmt ts) counts'
           (if fmt ts \<in> set (dict_keys mc) then mc else mc @ [(fmt ts, new_summary sw)])"
    by (auto simp: and_then_Inr_iff)
  then show ?thesis
    by (simp only: keys_touched r row_timestamp_def fst_conv)
qed

lemma mention_step_preserves:
  assumes step: "mention_step fmt sw mc r = Inr mc'"
    and inv: "\<forall>s\<in>snd ` set mc. P s" and new: "P (new_summary sw)"
    and upd: "\<And>s s' iw cw c. P s \<Longrightarrow> update_summary sw iw cw (row_tag r) c s = Inr s' \<Longrightarrow> P s'"
  shows "\<forall>s\<in>snd ` set mc'. P s"
proof -
  obtain ts iw cw tg c rk where r: "r = (ts, iw, cw, tg, c, rk)"
    by (cases r)
  obtain counts where counts: "counts \<in> insert (new_summary sw) (snd ` set mc)" and
    "mention_step fmt sw mc (ts, iw, cw, tg, c, rk) =
      and_then (update_summary sw iw cw tg c counts)
        (\<lambda>counts'. Inr (dict_set (fmt ts) counts'
           (if fmt ts \<in> set (dict_keys mc) then mc else mc @ [(fmt ts, new_summary sw)])))"
    by (rule mention_step_cases)
  with step r obtain counts' where upd': "update_summary sw iw cw tg c counts = Inr counts'"
    and mc': "mc' = dict_set (fmt ts) counts'
           (if fmt ts \<in> set (dict_keys mc) then mc else mc @ [(fmt ts, new_summary sw)])"
    by (auto simp: and_then_Inr_iff)
  from counts inv new have "P counts"
    by auto
  with upd' have "P counts'"
    using upd [of counts iw cw c counts'] by (simp add: r row_tag_def)
  have sub: "snd ` set mc' \<subseteq> insert counts' (insert (new_summary sw) (snd ` set mc))"
    unfolding mc' by (rule values_touched)
  show ?thesis
  proof
    fix s
    assume "s \<in> snd ` set mc'"
    with sub have "s = counts' \<or> s = new_summary sw \<or> s \<in> snd ` set mc"
      by blast
    with inv new \<open>P counts'\<close> show "P s"
      by blast
  qed
qed

lemma mention_step_succeeds:
  assumes "\<forall>s\<in>snd ` set mc. summary_shape s" and "row_tag r \<in> channels"
  shows "\<exists>mc'. mention_step fmt sw mc r = Inr mc'"
proof -
  obtain ts iw cw tg c rk where r: "r = (ts, iw, cw, tg, c, rk)"
    by (cases r)
  obtain counts where counts: "counts \<in> insert (new_summary sw) (snd ` set mc)" and
    eq: "mention_step fmt sw mc (ts, iw, cw, tg, c, rk) =
      and_then (update_summary sw iw cw tg c counts)
        (\<lambda>counts'. Inr (dict_set (fmt ts) counts'
           (if fmt ts \<in> set (dict_keys mc) then mc else mc @ [(fmt ts, new_summary sw)])))"
    by (rule mention_step_cases)
  from counts assms(1) have "summary_shape counts"
    using summary_shape_new by auto
  moreover from assms(2) have "tg \<in> channels"
    by (simp add: r row_tag_def)
  ultimately obtain s' where "update_summary sw iw cw tg c counts = Inr s'"
    using update_summary_shape by blast
  with eq r show ?thesis
    by simp
qed

lemma mention_step_unknown:
  assumes "\<forall>s\<in>snd ` set mc. dict_keys s = summary_keys" and "row_tag r \<notin> set summary_keys"
  shows "mention_step fmt sw mc r = Inl (KeyError (row_tag r))"
proof -
  obtain ts iw cw tg c rk where r: "r = (ts, iw, cw, tg, c, rk)"
    by (cases r)
  obtain counts where counts: "counts \<in> insert (new_summary sw) (snd ` set mc)" and
    eq: "mention_step fmt sw mc (ts, iw, cw, tg, c, rk) =
      and_then (update_summary sw iw cw tg c counts)
        (\<lambda>counts'. Inr (dict_set (fmt ts) counts'
           (if fmt ts \<in> set (dict_keys mc) then mc else mc @ [(fmt ts, new_summary sw)])))"
    by (rule mention_step_cases)
  from counts assms(1) have "dict_keys counts = summary_keys"
    using summary_shape_keys [OF summary_shape_new] by auto
  with assms(2) have "tg \<notin> set (dict_keys counts)"
    by (simp add: r row_tag_def)
  then have "update_summary sw iw cw tg c counts = Inl (KeyError tg)"
    by (rule update_summary_unknown)
  with eq r show ?thesis
    by (simp add: row_tag_def)
qed

lemma count_mentions_append:
  "count_mentions fmt sw (xs @ ys) mc =
     and_then (count_mentions fmt sw xs mc) (count_mentions fmt sw ys)"
proof (induction xs arbitrary: mc)
  case Nil
  show ?case by simp
next
  case (Cons x xs)
  show ?case
    by (cases "mention_step fmt sw mc x") (simp_all add: Cons.IH)
qed

lemma and_then_Inr [simp]: "and_then m Inr = m"
  by (cases m) simp_all

lemma count_mentions_snoc:
  "count_mentions fmt sw (rows @ [r]) mc =
     and_then (count_mentions fmt sw rows mc) (\<lambda>mc'. mention_step fmt sw mc' r)"
proof -
  have "count_mentions fmt sw [] = Inr"
    by (rule ext) simp
  then have "count_mentions fmt sw [r] = (\<lambda>mc'. mention_step fmt sw mc' r)"
    by (intro ext) simp
  then show ?thesis
    by (simp add: count_mentions_append)
qed

lemma count_mentions_keys:
  "count_mentions fmt sw rows [] = Inr mc \<Longrightarrow>
     dict_keys mc = first_seen (map (\<lambda>r. fmt (row_timestamp r)) rows) \<and>
     (\<forall>s\<in>snd ` set mc. dict_keys s = summary_keys)"
proof (induction rows arbitrary: mc rule: rev_induct)
  case Nil
  then show ?case
    by (auto simp: dict_keys_def)
next
  case (snoc r rows)
  from snoc.prems obtain mc0 where mc0: "count_mentions fmt sw rows [] = Inr mc0"
    and step: "mention_step fmt sw mc0 r = Inr mc"
    by (auto simp: count_mentions_snoc and_then_Inr_iff)
  from snoc.IH [OF mc0] have keys0: "dict_keys mc0 = first_seen (map (\<lambda>r. fmt (row_timestamp r)) rows)"
    and vals0: "\<forall>s\<in>snd ` set mc0. dict_keys s = summary_keys"
    by simp_all
  have "dict_keys mc = first_seen (map (\<lambda>r. fmt (row_timestamp r)) (rows @ [r]))"
    using mention_step_keys [OF step] by (simp add: keys0 first_seen_snoc)
  moreover have "\<forall>s\<in>snd ` set mc. dict_keys s = summary_keys"
    using step vals0
  proof (rule mention_step_preserves)
    show "dict_keys (new_summary sw) = summary_keys"
      by (rule summary_shape_keys [OF summary_shape_new])
  qed (simp add: update_summary_keys)
  ultimately show ?case
    by simp
qed

lemma count_mentions_shape:
  "\<forall>r\<in>set rows. row_tag r \<in> channels \<Longrightarrow>
     \<exists>mc. count_mentions fmt sw rows [] = Inr mc \<and> (\<forall>s\<in>snd ` set mc. summary_shape s)"
proof (induction rows rule: rev_induct)
  case Nil
  show ?case
    by simp
next
  case (snoc r rows)
  then obtain mc0 where mc0: "count_mentions fmt sw rows [] = Inr mc0"
    and vals0: "\<forall>s\<in>snd ` set mc0. summary_shape s"
    by auto
  from snoc.prems have tag: "row_tag r \<in> channels"
    by simp
  with vals0 obtain mc where step: "mention_step fmt sw mc0 r = Inr mc"
    using mention_step_succeeds by blast
  have "\<forall>s\<in>snd ` set mc. summary_shape s"
    using step vals0 summary_shape_new
  proof (rule mention_step_preserves)
    fix s s' iw cw c
    assume "summary_shape s" and "update_summary sw iw cw (row_tag r) c s = Inr s'"
    with tag show "summary_shape s'"
      using update_summary_shape [of s "row_tag r" sw iw cw c] by auto
  qed
  with mc0 step show ?case
    by (simp add: count_mentions_snoc)
qed

lemma merged_totals:
  assumes "summary_shape s"
  shows "\<exists>t n w y. map_of (dict_merge [(''timestamp'', JStr T)] s) ''total'' = Some (JInt t) \<and>
           map_of (dict_merge [(''timestamp'', JStr T)] s) ''news'' = Some (JInt n) \<and>
           map_of (dict_merge [(''timestamp'', JStr T)] s) ''webtoon'' = Some (JInt w) \<and>
           map_of (dict_merge [(''timestamp'', JStr T)] s) ''youtube'' = Some (JInt y) \<and>
           t = n + w + y"
proof -
  from assms obtain t n w y sw' iws cws where
    s: "s = [(''total'', JInt t), (''news'', JInt n), (''webtoon'', JInt w),
             (''youtube'', JInt y), (''search_word'', JStr sw'), (''incorrect_word'', JStrs iws),
             (''correct_word'', JStrs cws)]" and sum: "t = n + w + y"
    unfolding summary_shape_def by blast
  show ?thesis
    unfolding s using sum by (simp add: dict_merge_def dict_set_def dict_keys_def)
qed

lemma merged_timestamp:
  assumes "dict_keys s = summary_keys"
  shows "map_of (dict_merge [(''timestamp'', JStr T)] s) ''timestamp'' = Some (JStr T)"
proof -
  from assms have "''timestamp'' \<notin> set (dict_keys s)"
    by (simp add: summary_keys_def)
  then show ?thesis
    by (simp add: map_of_dict_merge)
qed

subsection \<open>Totals of a mention summary\<close>

lemma counted_new: "counted 0 0 0 0 (new_summary sw)"
  by (simp add: counted_def new_summary_def)

lemma update_summary_counted:
  assumes "counted t n w y s" and "tg \<in> channels"
  shows "\<exists>s'. update_summary sw iw cw tg c s = Inr s' \<and>
           counted (t + c) (n + (if tg = ''news'' then c else 0))
             (w + (if tg = ''webtoon'' then c else 0))
             (y + (if tg = ''youtube'' then c else 0)) s'"
proof -
  from assms(1) obtain sw' iws cws where
    s: "s = [(''total'', JInt t), (''news'', JInt n), (''webtoon'', JInt w),
             (''youtube'', JInt y), (''search_word'', JStr sw'), (''incorrect_word'', JStrs iws),
             (''correct_word'', JStrs cws)]"
    unfolding counted_def by blast
  from assms(2) consider "tg = ''news''" | "tg = ''webtoon''" | "tg = ''youtube''"
    by (auto simp: channels_def)
  then show ?thesis
  proof cases
    case 1
    with s show ?thesis
      by (simp add: update_summary_def iadd_def append_new_def dict_set_def dict_keys_def
            counted_def)
  next
    case 2
    with s show ?thesis
      by (simp add: update_summary_def iadd_def append_new_def dict_set_def dict_keys_def
            counted_def)
  next
    case 3
    with s show ?thesis
      by (simp add: update_summary_def iadd_def append_new_def dict_set_def dict_keys_def
            counted_def)
  qed
qed

lemma bucket_count_snoc:
  "bucket_count fmt T (rows @ [r]) =
     bucket_count fmt T rows + (if fmt (row_timestamp r) = T then row_count r else 0)"
  by (simp add: bucket_count_def bucket_rows_def)

lemma tag_count_snoc:
  "tag_count fmt T tg (rows @ [r]) =
     tag_count fmt T tg rows +
       (if fmt (row_timestamp r) = T \<and> row_tag r = tg then row_count r else 0)"
  by (simp add: tag_count_def bucket_rows_def)

lemma bucket_count_channels:
  "\<forall>r\<in>set rows. row_tag r \<in> channels \<Longrightarrow>
     bucket_count fmt T rows =
       tag_count fmt T ''news'' rows + tag_count fmt T ''webtoon'' rows +
       tag_count fmt T ''youtube'' rows"
proof (induction rows rule: rev_induct)
  case Nil
  show ?case
    by (simp add: bucket_count_def tag_count_def bucket_rows_def)
next
  case (snoc r rows)
  then have "row_tag r = ''news'' \<or> row_tag r = ''webtoon'' \<or> row_tag r = ''youtube''"
    by (simp add: channels_def)
  with snoc show ?case
    by (auto simp: bucket_count_snoc tag_count_snoc)
qed

lemma unseen_bucket_empty:
  assumes "T \<notin> (\<lambda>r. fmt (row_timestamp r)) ` set rows"
  shows "bucket_count fmt T rows = 0" and "tag_count fmt T tg rows = 0"
proof -
  from assms have "bucket_rows fmt T rows = []"
    unfolding bucket_rows_def by (induction rows) auto
  then show "bucket_count fmt T rows = 0" and "tag_count fmt T tg rows = 0"
    by (simp_all add: bucket_count_def tag_count_def)
qed

lemma in_dict_set_cases:
  "(k, s) \<in> set (dict_set T v d) \<Longrightarrow> (k = T \<and> s = v) \<or> (k \<noteq> T \<and> (k, s) \<in> set d)"
  by (force simp: dict_set_def dict_keys_def split: if_splits)

lemma mention_step_result:
  assumes "mention_step fmt sw mc (ts, iw, cw, tg, c, rk) = Inr mc'"
  obtains counts counts' where
    "map_of (if fmt ts \<in> set (dict_keys mc) then mc else mc @ [(fmt ts, new_summary sw)])
       (fmt ts) = Some counts"
    and "update_summary sw iw cw tg c counts = Inr counts'"
    and "mc' = dict_set (fmt ts) counts'
           (if fmt ts \<in> set (dict_keys mc) then mc else mc @ [(fmt ts, new_summary sw)])"
proof -
  obtain counts where look:
    "map_of (if fmt ts \<in> set (dict_keys mc) then mc else mc @ [(fmt ts, new_summary sw)])
       (fmt ts) = Some counts"
    using lookup_touched [of "fmt ts" mc "new_summary sw"] by blast
  with assms have "and_then (update_summary sw iw cw tg c counts)
        (\<lambda>counts'. Inr (dict_set (fmt ts) counts'
           (if fmt ts \<in> set (dict_keys mc) then mc else mc @ [(fmt ts, new_summary sw)]))) =
      Inr mc'"
    by (simp only: mention_step_eq option.case)
  then obtain counts' where "update_summary sw iw cw tg c counts = Inr counts'"
    and "mc' = dict_set (fmt ts) counts'
           (if fmt ts \<in> set (dict_keys mc) then mc else mc @ [(fmt ts, new_summary sw)])"
    by (auto simp: and_then_Inr_iff)
  with look show ?thesis
    by (rule that)
qed

lemma count_mentions_counted:
  assumes "\<forall>r\<in>set rows. row_tag r \<in> channels"
    and "count_mentions fmt sw rows [] = Inr mc" and "(T, s) \<in> set mc"
  shows "counted (bucket_count fmt T rows) (tag_count fmt T ''news'' rows)
           (tag_count fmt T ''webtoon'' rows) (tag_count fmt T ''youtube'' rows) s"
  using assms
proof (induction rows arbitrary: mc T s rule: rev_induct)
  case Nil
  then show ?case
    by simp
next
  case (snoc r rows)
  obtain ts iw cw tg c rk where r: "r = (ts, iw, cw, tg, c, rk)"
    by (cases r)
  from snoc.prems(2) obtain mc0 where mc0: "count_mentions fmt sw rows [] = Inr mc0"
    and step: "mention_step fmt sw mc0 (ts, iw, cw, tg, c, rk) = Inr mc"
    by (auto simp: count_mentions_snoc and_then_Inr_iff r)
  from snoc.prems(1) have tags: "\<forall>r\<in>set rows. row_tag r \<in> channels" and tg: "tg \<in> channels"
    by (simp_all add: r row_tag_def)
  have IH: "counted (bucket_count fmt T' rows) (tag_count fmt T' ''news'' rows)
           (tag_count fmt T' ''webtoon'' rows) (tag_count fmt T' ''youtube'' rows) s'"
    if "(T', s') \<in> set mc0" for T' s'
    using tags mc0 that by (rule snoc.IH)
  have keys0: "set (dict_keys mc0) = (\<lambda>r. fmt (row_timestamp r)) ` set rows"
    using count_mentions_keys [OF mc0] by simp
  let ?mc1 = "if fmt ts \<in> set (dict_keys mc0) then mc0 else mc0 @ [(fmt ts, new_summary sw)]"
  from step obtain counts counts' where look: "map_of ?mc1 (fmt ts) = Some counts"
    and upd: "update_summary sw iw cw tg c counts = Inr counts'"
    and mc: "mc = dict_set (fmt ts) counts' ?mc1"
    by (rule mention_step_result)
  have before: "counted (bucket_count fmt (fmt ts) rows) (tag_count fmt (fmt ts) ''news'' rows)
           (tag_count fmt (fmt ts) ''webtoon'' rows) (tag_count fmt (fmt ts) ''youtube'' rows)
           counts"
  proof (cases "fmt ts \<in> set (dict_keys mc0)")
    case True
    with look have "(fmt ts, counts) \<in> set mc0"
      by (auto dest: map_of_SomeD)
    then show ?thesis
      by (rule IH)
  next
    case False
    then have "map_of mc0 (fmt ts) = None"
      by (simp add: dict_keys_def map_of_eq_None_iff)
    with False look have "counts = new_summary sw"
      by (simp add: map_add_def)
    moreover from False keys0 have "fmt ts \<notin> (\<lambda>r. fmt (row_timestamp r)) ` set rows"
      by simp
    ultimately show ?thesis
      by (simp add: unseen_bucket_empty counted_new)
  qed
  from update_summary_counted [OF before tg, of sw iw cw c] upd
  have after: "counted (bucket_count fmt (fmt ts) rows + c)
      (tag_count fmt (fmt ts) ''news'' rows + (if tg = ''news'' then c else 0))
      (tag_count fmt (fmt ts) ''webtoon'' rows + (if tg = ''webtoon'' then c else 0))
      (tag_count fmt (fmt ts) ''youtube'' rows + (if tg = ''youtube'' then c else 0)) counts'"
    by auto
  from snoc.prems(3) mc have "(T, s) \<in> set (dict_set (fmt ts) counts' ?mc1)"
    by simp
  then have "(T = fmt ts \<and> s = counts') \<or> (T \<noteq> fmt ts \<and> (T, s) \<in> set ?mc1)"
    by (rule in_dict_set_cases)
  then consider "T = fmt ts" "s = counts'" | "T \<noteq> fmt ts" "(T, s) \<in> set ?mc1"
    by blast
  then show ?case
  proof cases
    case 1
    with after show ?thesis
      by (auto simp: bucket_count_snoc tag_count_snoc r row_timestamp_def row_tag_def
            row_count_def split: if_splits)
  next
    case 2
    then have "(T, s) \<in> set mc0"
      by (auto split: if_splits)
    then have "counted (bucket_count fmt T rows) (tag_count fmt T ''news'' rows)
           (tag_count fmt T ''webtoon'' rows) (tag_count fmt T ''youtube'' rows) s"
      by (rule IH)
    with 2(1) show ?thesis
      by (simp add: bucket_count_snoc tag_count_snoc r row_timestamp_def)
  qed
qed

lemma merged_counted:
  assumes "counted t n w y s"
  shows "map_of (dict_merge [(''timestamp'', JStr T)] s) ''timestamp'' = Some (JStr T) \<and>
         map_of (dict_merge [(''timestamp'', JStr T)] s) ''total'' = Some (JInt t) \<and>
         map_of (dict_merge [(''timestamp'', JStr T)] s) ''news'' = Some (JInt n) \<and>
         map_of (dict_merge [(''timestamp'', JStr T)] s) ''webtoon'' = Some (JInt w) \<and>
         map_of (dict_merge [(''timestamp'', JStr T)] s) ''youtube'' = Some (JInt y)"
proof -
  from assms obtain sw' iws cws where
    s: "s = [(''total'', JInt t), (''news'', JInt n), (''webtoon'', JInt w),
             (''youtube'', JInt y), (''search_word'', JStr sw'), (''incorrect_word'', JStrs iws),
             (''correct_word'', JStrs cws)]"
    unfolding counted_def by blast
  show ?thesis
    unfolding s by (simp add: dict_merge_def dict_set_def dict_keys_def)
qed

text \<open>
  Claim C5. When every row is tagged \<open>news\<close>, \<open>webtoon\<close> or \<open>youtube\<close>, the mention
  aggregation returns (it raises nothing), and in every entry it returns \<open>total\<close> is the
  sum of the three channel counters: \<open>total\<close> is the sum of the counts of the bucket's rows
  and each channel counter the sum of the counts of the bucket's rows of that tag. This is
  kept row by row: processing a row of a channel adds the row's count to that channel's
  counter and to \<open>total\<close>, and leaves the other two counters as they are.
\<close>

theorem get_word_tags_totals:
  assumes "\<forall>r\<in>set rows. row_tag r \<in> {''news'', ''webtoon'', ''youtube''}"
  shows "(\<exists>out. get_word_tags_aggregate fmt search_word rows = Inr out \<and>
           (\<forall>e\<in>set out. \<exists>T t n w y.
              map_of e ''timestamp'' = Some (JStr T) \<and>
              map_of e ''total'' = Some (JInt t) \<and> map_of e ''news'' = Some (JInt n) \<and>
              map_of e ''webtoon'' = Some (JInt w) \<and> map_of e ''youtube'' = Some (JInt y) \<and>
              t = n + w + y \<and>
              t = bucket_count fmt T rows \<and> n = tag_count fmt T ''news'' rows \<and>
              w = tag_count fmt T ''webtoon'' rows \<and> y = tag_count fmt T ''youtube'' rows)) \<and>
         (tg \<in> {''news'', ''webtoon'', ''youtube''} \<and> counted t0 n0 w0 y0 s \<longrightarrow>
            (\<exists>s'. update_summary search_word incorrect correct tg cnt s = Inr s' \<and>
                  counted (t0 + cnt) (n0 + (if tg = ''news'' then cnt else 0))
                    (w0 + (if tg = ''webtoon'' then cnt else 0))
                    (y0 + (if tg = ''youtube'' then cnt else 0)) s'))"
proof (rule conjI)
  from assms have tags: "\<forall>r\<in>set rows. row_tag r \<in> channels"
    by (simp add: channels_def)
  then obtain mc where mc: "count_mentions fmt search_word rows [] = Inr mc"
    using count_mentions_shape by blast
  let ?out = "map (\<lambda>(timestamp, tag_counts).
                      dict_merge [(''timestamp'', JStr timestamp)] tag_counts) mc"
  have run: "get_word_tags_aggregate fmt search_word rows = Inr ?out"
    by (simp add: get_word_tags_aggregate_def mc)
  have "\<exists>T t n w y.
      map_of e ''timestamp'' = Some (JStr T) \<and>
      map_of e ''total'' = Some (JInt t) \<and> map_of e ''news'' = Some (JInt n) \<and>
      map_of e ''webtoon'' = Some (JInt w) \<and> map_of e ''youtube'' = Some (JInt y) \<and>
      t = n + w + y \<and>
      t = bucket_count fmt T rows \<and> n = tag_count fmt T ''news'' rows \<and>
      w = tag_count fmt T ''webtoon'' rows \<and> y = tag_count fmt T ''youtube'' rows"
    if "e \<in> set ?out" for e
  proof -
    from that obtain T s where Ts: "(T, s) \<in> set mc"
      and e: "e = dict_merge [(''timestamp'', JStr T)] s"
      by auto
    from tags mc Ts have "counted (bucket_count fmt T rows) (tag_count fmt T ''news'' rows)
           (tag_count fmt T ''webtoon'' rows) (tag_count fmt T ''youtube'' rows) s"
      by (rule count_mentions_counted)
    then have "map_of e ''timestamp'' = Some (JStr T) \<and>
         map_of e ''total'' = Some (JInt (bucket_count fmt T rows)) \<and>
         map_of e ''news'' = Some (JInt (tag_count fmt T ''news'' rows)) \<and>
         map_of e ''webtoon'' = Some (JInt (tag_count fmt T ''webtoon'' rows)) \<and>
         map_of e ''youtube'' = Some (JInt (tag_count fmt T ''youtube'' rows))"
      unfolding e by (rule merged_counted)
    moreover have "bucket_count fmt T rows =
        tag_count fmt T ''news'' rows + tag_count fmt T ''webtoon'' rows +
        tag_count fmt T ''youtube'' rows"
      using tags by (rule bucket_count_channels)
    ultimately show ?thesis
      by blast
  qed
  with run show "\<exists>out. get_word_tags_aggregate fmt search_word rows = Inr out \<and>
           (\<forall>e\<in>set out. \<exists>T t n w y.
              map_of e ''timestamp'' = Some (JStr T) \<and>
              map_of e ''total'' = Some (JInt t) \<and> map_of e ''news'' = Some (JInt n) \<and>
              map_of e ''webtoon'' = Some (JInt w) \<and> map_of e ''youtube'' = Some (JInt y) \<and>
              t = n + w + y \<and>
              t = bucket_count fmt T rows \<and> n = tag_count fmt T ''news'' rows \<and>
              w = tag_count fmt T ''webtoon'' rows \<and> y = tag_count fmt T ''youtube'' rows)"
    by blast
next
  show "tg \<in> {''news'', ''webtoon'', ''youtube''} \<and> counted t0 n0 w0 y0 s \<longrightarrow>
            (\<exists>s'. update_summary search_word incorrect correct tg cnt s = Inr s' \<and>
                  counted (t0 + cnt) (n0 + (if tg = ''news'' then cnt else 0))
                    (w0 + (if tg = ''webtoon'' then cnt else 0))
                    (y0 + (if tg = ''youtube'' then cnt else 0)) s')"
    using update_summary_counted [of t0 n0 w0 y0 s tg search_word incorrect correct cnt]
    by (simp add: channels_def)
qed

subsection \<open>Order of the mention summaries\<close>

text \<open>
  Claim C9. Whenever the mention aggregation returns, its entries show, in this order, the
  distinct timestamp strings of the rows in order of first occurrence: one entry per
  bucket, and no sorting (the concrete run below returns 05:00 before 04:00).
\<close>

theorem get_word_tags_first_seen_order:
  assumes "get_word_tags_aggregate fmt search_word rows = Inr out"
  shows "map (\<lambda>e. map_of e ''timestamp'') out =
           map (\<lambda>T. Some (JStr T)) (first_seen (map (\<lambda>r. fmt (row_timestamp r)) rows)) \<and>
         length out = card ((\<lambda>r. fmt (row_timestamp r)) ` set rows)"
proof -
  from assms obtain mc where mc: "count_mentions fmt search_word rows [] = Inr mc"
    and out: "out = map (\<lambda>(timestamp, tag_counts).
                      dict_merge [(''timestamp'', JStr timestamp)] tag_counts) mc"
    by (auto simp: get_word_tags_aggregate_def and_then_Inr_iff)
  from count_mentions_keys [OF mc]
  have keys: "dict_keys mc = first_seen (map (\<lambda>r. fmt (row_timestamp r)) rows)"
    and vals: "\<forall>s\<in>snd ` set mc. dict_keys s = summary_keys"
    by simp_all
  have "map_of (dict_merge [(''timestamp'', JStr (fst p))] (snd p)) ''timestamp'' =
      Some (JStr (fst p))" if "p \<in> set mc" for p
    using that vals by (intro merged_timestamp) simp
  then have "map (\<lambda>e. map_of e ''timestamp'') out = map (\<lambda>p. Some (JStr (fst p))) mc"
    unfolding out by (simp add: case_prod_unfold)
  also have "\<dots> = map (\<lambda>T. Some (JStr T)) (dict_keys mc)"
    by (simp add: dict_keys_def)
  finally have first: "map (\<lambda>e. map_of e ''timestamp'') out =
      map (\<lambda>T. Some (JStr T)) (first_seen (map (\<lambda>r. fmt (row_timestamp r)) rows))"
    by (simp only: keys)
  have "length out = length (dict_keys mc)"
    by (simp add: out dict_keys_def)
  also have "\<dots> = card (set (first_seen (map (\<lambda>r. fmt (row_timestamp r)) rows)))"
    unfolding keys by (rule distinct_card [symmetric]) (rule distinct_first_seen)
  finally have "length out = card ((\<lambda>r. fmt (row_timestamp r)) ` set rows)"
    by simp
  with first show ?thesis
    by (rule conjI)
qed

subsection \<open>A tag outside the three channels\<close>

text \<open>
  Claim C8. If the rows before some row are all tagged with one of the three channels and
  that row's tag is none of the seven keys of a summary, the mention aggregation raises
  \<open>KeyError\<close> on that tag and returns no summary; the tag \<open>sports\<close> is such an input.
\<close>

theorem get_word_tags_unknown_tag:
  assumes "rows = pre @ r # post"
    and "\<forall>p\<in>set pre. row_tag p \<in> {''news'', ''webtoon'', ''youtube''}"
    and "row_tag r \<notin> {''total'', ''news'', ''webtoon'', ''youtube'', ''search_word'',
                        ''incorrect_word'', ''correct_word''}"
  shows "get_word_tags_aggregate fmt search_word rows = Inl (KeyError (row_tag r))"
proof -
  from assms(2) have "\<forall>p\<in>set pre. row_tag p \<in> channels"
    by (simp add: channels_def)
  then obtain mc where mc: "count_mentions fmt search_word pre [] = Inr mc"
    and shape: "\<forall>s\<in>snd ` set mc. summary_shape s"
    using count_mentions_shape by blast
  from shape have "\<forall>s\<in>snd ` set mc. dict_keys s = summary_keys"
    by (simp add: summary_shape_keys)
  moreover from assms(3) have "row_tag r \<notin> set summary_keys"
    by (simp add: summary_keys_def)
  ultimately have "mention_step fmt search_word mc r = Inl (KeyError (row_tag r))"
    by (rule mention_step_unknown)
  then have "count_mentions fmt search_word (pre @ r # post) [] = Inl (KeyError (row_tag r))"
    by (simp add: count_mentions_append mc)
  then show ?thesis
    by (simp add: get_word_tags_aggregate_def assms(1))
qed

lemmas mention_run = get_word_tags_aggregate_def mention_step_def update_summary_def iadd_def
  append_new_def new_summary_def dict_set_def dict_keys_def dict_merge_def
  strftime_at_hour_4 strftime_at_hour_5

lemma two_rows_mentions:
  "get_word_tags_aggregate strftime_ymdhms ''gud-i'' two_rows =
     Inr [[(''timestamp'', JStr ''2023-08-28 04:00:00''), (''total'', JInt 59),
           (''news'', JInt 31), (''webtoon'', JInt 28), (''youtube'', JInt 0),
           (''search_word'', JStr ''gud-i''), (''incorrect_word'', JStrs [''gud-i'']),
           (''correct_word'', JStrs [''gut-i''])]]"
  by (simp add: mention_run two_rows_def)

lemma collide_rows_mentions:
  "get_word_tags_aggregate strftime_ymdhms ''b'' collide_rows =
     Inr [[(''timestamp'', JStr ''2023-08-28 05:00:00''), (''total'', JInt 7),
           (''news'', JInt 0), (''webtoon'', JInt 0), (''youtube'', JInt 7),
           (''search_word'', JStr ''b''), (''incorrect_word'', JStrs []),
           (''correct_word'', JStrs [])],
          [(''timestamp'', JStr ''2023-08-28 04:00:00''), (''total'', JInt 59),
           (''news'', JInt 31), (''webtoon'', JInt 28), (''youtube'', JInt 0),
           (''search_word'', JStr ''b''), (''incorrect_word'', JStrs [''b'']),
           (''correct_word'', JStrs [''B''])]]"
  by (simp add: mention_run collide_rows_def)

lemma sports_rows_mentions:
  "get_word_tags_aggregate strftime_ymdhms ''a'' sports_rows = Inl (KeyError ''sports'')"
  by (simp add: mention_run sports_rows_def)

lemma get_word_tags_demo:
  "get_word_tags (demo_env (Rows (Some rows))) ''2023-08-27 22:12:03'' ''2023-08-28 22:12:03''
       search_word =
     (case get_word_tags_aggregate strftime_ymdhms search_word rows of
        Inl e \<Rightarrow> Raised e | Inr result \<Rightarrow> Returned result)"
  by (simp add: handler_run)

lemma strptime_slashes: "strptime_ymdhms ''28/08/2023'' = None"
  by code_simp

lemma update_summary_youtube:
  "update_summary ''b'' ''c'' ''C'' ''youtube'' 7 (new_summary ''b'') =
     Inr [(''total'', JInt 7), (''news'', JInt 0), (''webtoon'', JInt 0), (''youtube'', JInt 7),
          (''search_word'', JStr ''b''), (''incorrect_word'', JStrs []),
          (''correct_word'', JStrs [])]"
  by (simp add: mention_run)

theorem get_word_tags_totals_witness:
  "row_tag ` set collide_rows \<subseteq> {''news'', ''webtoon'', ''youtube''} \<and>
   get_word_tags_aggregate strftime_ymdhms ''b'' collide_rows =
     Inr [[(''timestamp'', JStr ''2023-08-28 05:00:00''), (''total'', JInt 7),
           (''news'', JInt 0), (''webtoon'', JInt 0), (''youtube'', JInt 7),
           (''search_word'', JStr ''b''), (''incorrect_word'', JStrs []),
           (''correct_word'', JStrs [])],
          [(''timestamp'', JStr ''2023-08-28 04:00:00''), (''total'', JInt 59),
           (''news'', JInt 31), (''webtoon'', JInt 28), (''youtube'', JInt 0),
           (''search_word'', JStr ''b''), (''incorrect_word'', JStrs [''b'']),
           (''correct_word'', JStrs [''B''])]] \<and>
   bucket_count strftime_ymdhms ''2023-08-28 05:00:00'' collide_rows = 7 \<and>
   tag_count strftime_ymdhms ''2023-08-28 05:00:00'' ''youtube'' collide_rows = 7 \<and>
   bucket_count strftime_ymdhms ''2023-08-28 04:00:00'' collide_rows = 59 \<and>
   (59 :: int) = 31 + 28 + 0 \<and>
   update_summary ''b'' ''c'' ''C'' ''youtube'' 7 (new_summary ''b'') =
     Inr [(''total'', JInt 7), (''news'', JInt 0), (''webtoon'', JInt 0), (''youtube'', JInt 7),
          (''search_word'', JStr ''b''), (''incorrect_word'', JStrs []),
          (''correct_word'', JStrs [])] \<and>
   counted 7 0 0 7
     [(''total'', JInt 7), (''news'', JInt 0), (''webtoon'', JInt 0), (''youtube'', JInt 7),
      (''search_word'', JStr ''b''), (''incorrect_word'', JStrs []),
      (''correct_word'', JStrs [])]"
proof -
  let ?e5 = "[(''timestamp'', JStr ''2023-08-28 05:00:00''), (''total'', JInt 7),
           (''news'', JInt 0), (''webtoon'', JInt 0), (''youtube'', JInt 7),
           (''search_word'', JStr ''b''), (''incorrect_word'', JStrs []),
           (''correct_word'', JStrs [])]"
  let ?e4 = "[(''timestamp'', JStr ''2023-08-28 04:00:00''), (''total'', JInt 59),
           (''news'', JInt 31), (''webtoon'', JInt 28), (''youtube'', JInt 0),
           (''search_word'', JStr ''b''), (''incorrect_word'', JStrs [''b'']),
           (''correct_word'', JStrs [''B''])]"
  have tags: "\<forall>r\<in>set collide_rows. row_tag r \<in> {''news'', ''webtoon'', ''youtube''}"
    by (simp add: collide_rows_def row_tag_def)
  have "\<exists>out. get_word_tags_aggregate strftime_ymdhms ''b'' collide_rows = Inr out \<and>
           (\<forall>e\<in>set out. \<exists>T t n w y.
              map_of e ''timestamp'' = Some (JStr T) \<and>
              map_of e ''total'' = Some (JInt t) \<and> map_of e ''news'' = Some (JInt n) \<and>
              map_of e ''webtoon'' = Some (JInt w) \<and> map_of e ''youtube'' = Some (JInt y) \<and>
              t = n + w + y \<and>
              t = bucket_count strftime_ymdhms T collide_rows \<and>
              n = tag_count strftime_ymdhms T ''news'' collide_rows \<and>
              w = tag_count strftime_ymdhms T ''webtoon'' collide_rows \<and>
              y = tag_count strftime_ymdhms T ''youtube'' collide_rows)"
    by (rule conjunct1 [OF get_word_tags_totals [OF tags]])
  then have all: "\<forall>e\<in>set [?e5, ?e4]. \<exists>T t n w y.
              map_of e ''timestamp'' = Some (JStr T) \<and>
              map_of e ''total'' = Some (JInt t) \<and> map_of e ''news'' = Some (JInt n) \<and>
              map_of e ''webtoon'' = Some (JInt w) \<and> map_of e ''youtube'' = Some (JInt y) \<and>
              t = n + w + y \<and>
              t = bucket_count strftime_ymdhms T collide_rows \<and>
              n = tag_count strftime_ymdhms T ''news'' collide_rows \<and>
              w = tag_count strftime_ymdhms T ''webtoon'' collide_rows \<and>
              y = tag_count strftime_ymdhms T ''youtube'' collide_rows"
    unfolding collide_rows_mentions by simp
  have "?e5 \<in> set [?e5, ?e4]"
    by simp
  with all have "\<exists>T t n w y.
              map_of ?e5 ''timestamp'' = Some (JStr T) \<and>
              map_of ?e5 ''total'' = Some (JInt t) \<and> map_of ?e5 ''news'' = Some (JInt n) \<and>
              map_of ?e5 ''webtoon'' = Some (JInt w) \<and> map_of ?e5 ''youtube'' = Some (JInt y) \<and>
              t = n + w + y \<and>
              t = bucket_count strftime_ymdhms T collide_rows \<and>
              n = tag_count strftime_ymdhms T ''news'' collide_rows \<and>
              w = tag_count strftime_ymdhms T ''webtoon'' collide_rows \<and>
              y = tag_count strftime_ymdhms T ''youtube'' collide_rows"
    by (rule bspec)
  then obtain T t n w y where "map_of ?e5 ''timestamp'' = Some (JStr T)"
    "map_of ?e5 ''total'' = Some (JInt t)" "map_of ?e5 ''youtube'' = Some (JInt y)"
    "t = bucket_count strftime_ymdhms T collide_rows"
    "y = tag_count strftime_ymdhms T ''youtube'' collide_rows"
    by blast
  then have five: "bucket_count strftime_ymdhms ''2023-08-28 05:00:00'' collide_rows = 7"
    "tag_count strftime_ymdhms ''2023-08-28 05:00:00'' ''youtube'' collide_rows = 7"
    by simp_all
  have "?e4 \<in> set [?e5, ?e4]"
    by simp
  with all have "\<exists>T t n w y.
              map_of ?e4 ''timestamp'' = Some (JStr T) \<and>
              map_of ?e4 ''total'' = Some (JInt t) \<and> map_of ?e4 ''news'' = Some (JInt n) \<and>
              map_of ?e4 ''webtoon'' = Some (JInt w) \<and> map_of ?e4 ''youtube'' = Some (JInt y) \<and>
              t = n + w + y \<and>
              t = bucket_count strftime_ymdhms T collide_rows \<and>
              n = tag_count strftime_ymdhms T ''news'' collide_rows \<and>
              w = tag_count strftime_ymdhms T ''webtoon'' collide_rows \<and>
              y = tag_count strftime_ymdhms T ''youtube'' collide_rows"
    by (rule bspec)
  then obtain T t n w y where "map_of ?e4 ''timestamp'' = Some (JStr T)"
    "map_of ?e4 ''total'' = Some (JInt t)" "map_of ?e4 ''news'' = Some (JInt n)"
    "map_of ?e4 ''webtoon'' = Some (JInt w)" "map_of ?e4 ''youtube'' = Some (JInt y)"
    "t = n + w + y" "t = bucket_count strftime_ymdhms T collide_rows"
    by blast
  then have four: "bucket_count strftime_ymdhms ''2023-08-28 04:00:00'' collide_rows = 59"
    "(59 :: int) = 31 + 28 + 0"
    by simp_all
  from tags have sub: "row_tag ` set collide_rows \<subseteq> {''news'', ''webtoon'', ''youtube''}"
    by blast
  have "''youtube'' \<in> {''news'', ''webtoon'', ''youtube''} \<and>
      counted 0 0 0 0 (new_summary ''b'')"
    by (simp add: counted_new)
  with conjunct2 [OF get_word_tags_totals [OF tags, where tg = "''youtube''" and ?t0.0 = 0
        and ?n0.0 = 0 and ?w0.0 = 0 and ?y0.0 = 0 and s = "new_summary ''b''"
        and incorrect = "''c''" and correct = "''C''" and cnt = 7]]
  have "\<exists>s'. update_summary ''b'' ''c'' ''C'' ''youtube'' 7 (new_summary ''b'') = Inr s' \<and>
      counted (0 + 7) (0 + (if ''youtube'' = ''news'' then 7 else 0))
        (0 + (if ''youtube'' = ''webtoon'' then 7 else 0))
        (0 + (if ''youtube'' = ''youtube'' then 7 else 0)) s'"
    by (rule mp)
  then have step: "counted 7 0 0 7
     [(''total'', JInt 7), (''news'', JInt 0), (''webtoon'', JInt 0), (''youtube'', JInt 7),
      (''search_word'', JStr ''b''), (''incorrect_word'', JStrs []),
      (''correct_word'', JStrs [])]"
    unfolding update_summary_youtube by simp
  from sub collide_rows_mentions five four update_summary_youtube step show ?thesis
    by (intro conjI)
qed

theorem get_word_tags_first_seen_order_witness:
  "get_word_tags_aggregate strftime_ymdhms ''b'' collide_rows =
     Inr [[(''timestamp'', JStr ''2023-08-28 05:00:00''), (''total'', JInt 7),
           (''news'', JInt 0), (''webtoon'', JInt 0), (''youtube'', JInt 7),
           (''search_word'', JStr ''b''), (''incorrect_word'', JStrs []),
           (''correct_word'', JStrs [])],
          [(''timestamp'', JStr ''2023-08-28 04:00:00''), (''total'', JInt 59),
           (''news'', JInt 31), (''webtoon'', JInt 28), (''youtube'', JInt 0),
           (''search_word'', JStr ''b''), (''incorrect_word'', JStrs [''b'']),
           (''correct_word'', JStrs [''B''])]] \<and>
   first_seen (map (\<lambda>r. strftime_ymdhms (row_timestamp r)) collide_rows) =
     [''2023-08-28 05:00:00'', ''2023-08-28 04:00:00''] \<and>
   card ((\<lambda>r. strftime_ymdhms (row_timestamp r)) ` set collide_rows) = 2"
proof -
  have seen: "first_seen (map (\<lambda>r. strftime_ymdhms (row_timestamp r)) collide_rows) =
     [''2023-08-28 05:00:00'', ''2023-08-28 04:00:00'']"
    by (simp add: collide_rows_def row_timestamp_def strftime_at_hour_4 strftime_at_hour_5)
  from get_word_tags_first_seen_order [OF collide_rows_mentions]
  have "card ((\<lambda>r. strftime_ymdhms (row_timestamp r)) ` set collide_rows) = 2"
    by simp
  with collide_rows_mentions seen show ?thesis
    by blast
qed

theorem get_word_tags_unknown_tag_witness:
  "sports_rows = [(at_hour 4, ''a'', ''A'', ''news'', 3, 1)] @
       (at_hour 4, ''b'', ''B'', ''sports'', 2, 2) # [] \<and>
   get_word_tags_aggregate strftime_ymdhms ''a'' sports_rows = Inl (KeyError ''sports'') \<and>
   get_word_tags (demo_env (Rows (Some sports_rows))) ''2023-08-27 22:12:03''
       ''2023-08-28 22:12:03'' ''a'' = Raised (KeyError ''sports'')"
proof -
  let ?r = "(at_hour 4, ''b'', ''B'', ''sports'', 2 :: int, 2 :: int)"
  have split: "sports_rows = [(at_hour 4, ''a'', ''A'', ''news'', 3, 1)] @ ?r # []"
    by (simp add: sports_rows_def)
  have pre: "\<forall>p\<in>set [(at_hour 4, ''a'', ''A'', ''news'', 3 :: int, 1 :: int)].
      row_tag p \<in> {''news'', ''webtoon'', ''youtube''}"
    by (simp add: row_tag_def)
  have unknown: "row_tag ?r \<notin> {''total'', ''news'', ''webtoon'', ''youtube'', ''search_word'',
                        ''incorrect_word'', ''correct_word''}"
    by (simp add: row_tag_def)
  have "get_word_tags_aggregate strftime_ymdhms ''a'' sports_rows = Inl (KeyError (row_tag ?r))"
    by (rule get_word_tags_unknown_tag [OF split pre unknown])
  then have agg: "get_word_tags_aggregate strftime_ymdhms ''a'' sports_rows =
      Inl (KeyError ''sports'')"
    by (simp add: row_tag_def)
  then have "get_word_tags (demo_env (Rows (Some sports_rows))) ''2023-08-27 22:12:03''
       ''2023-08-28 22:12:03'' ''a'' = Raised (KeyError ''sports'')"
    by (simp add: get_word_tags_demo)
  with split agg show ?thesis
    by blast
qed

section \<open>Properties of the request handlers\<close>

text \<open>
  Claim C6 fails for \<open>get_word_tags\<close>: when the database hands back an empty sequence it
  returns the empty list (status 200), while \<open>get_rank\<close> raises 204 for the same answer, and
  both raise 204 for \<open>None\<close>.
\<close>

theorem get_word_tags_empty_fetch:
  "get_word_tags (demo_env (Rows (Some []))) ''2023-08-27 22:12:03'' ''2023-08-28 22:12:03''
       ''gud-i'' = Returned [] \<and>
   get_word_tags (demo_env (Rows None)) ''2023-08-27 22:12:03'' ''2023-08-28 22:12:03''
       ''gud-i'' = HTTPException 204 None \<and>
   get_rank (demo_env (Rows (Some []))) ''2023-08-27 22:12:03'' ''2023-08-28 22:12:03''
       None = HTTPException 204 None \<and>
   get_rank (demo_env (Rows None)) ''2023-08-27 22:12:03'' ''2023-08-28 22:12:03''
       None = HTTPException 204 None"
  by (simp add: handler_run get_word_tags_aggregate_def)

text \<open>
  Claim C7, as amended. When a non-empty \<open>start_time\<close> or \<open>end_time\<close> does not parse, both
  handlers let the \<open>ValueError\<close> escape: neither turns it into an \<open>HTTPException\<close>, so the
  handler's own answer is no 4xx response.
\<close>

theorem malformed_time_uncaught:
  assumes "(start_time \<noteq> [] \<and> strptime env start_time = None) \<or>
           (end_time \<noteq> [] \<and> strptime env end_time = None)"
  shows "get_rank env start_time end_time tag = Raised ValueError \<and>
         get_word_tags env start_time end_time search_word = Raised ValueError \<and>
         \<not> client_error (get_rank env start_time end_time tag) \<and>
         \<not> client_error (get_word_tags env start_time end_time search_word)"
proof -
  from assms have "parse_window env start_time end_time = Inl ValueError"
    by (auto simp: parse_window_def split: option.splits)
  then show ?thesis
    by (simp add: get_rank_def get_word_tags_def client_error_def)
qed

theorem malformed_time_uncaught_witness:
  "strptime (demo_env (Rows (Some two_rows))) ''28/08/2023'' = None \<and>
   get_rank (demo_env (Rows (Some two_rows))) [] ''28/08/2023'' None = Raised ValueError \<and>
   get_word_tags (demo_env (Rows (Some two_rows))) [] ''28/08/2023'' ''gud-i'' =
     Raised ValueError"
proof -
  have none: "strptime (demo_env (Rows (Some two_rows))) ''28/08/2023'' = None"
    by (simp add: demo_env_def strptime_slashes)
  then have "([] \<noteq> ([] :: string) \<and> strptime (demo_env (Rows (Some two_rows))) [] = None) \<or>
      (''28/08/2023'' \<noteq> [] \<and> strptime (demo_env (Rows (Some two_rows))) ''28/08/2023'' = None)"
    by simp
  from malformed_time_uncaught [OF this, of None "''gud-i''"] none show ?thesis
    by blast
qed

text \<open>
  Counterexample to claim C7 as stated: the start time \<open>yesterday\<close> does not parse, and
  neither handler answers with a client error.
\<close>

theorem malformed_time_counterexample:
  "strptime_ymdhms ''yesterday'' = None \<and>
   get_rank (demo_env (Rows (Some two_rows))) ''yesterday'' ''2023-08-28 22:12:03'' None =
     Raised ValueError \<and>
   get_word_tags (demo_env (Rows (Some two_rows))) ''yesterday'' ''2023-08-28 22:12:03''
     ''gud-i'' = Raised ValueError \<and>
   \<not> client_error
       (get_rank (demo_env (Rows (Some two_rows))) ''yesterday'' ''2023-08-28 22:12:03'' None) \<and>
   \<not> client_error
       (get_word_tags (demo_env (Rows (Some two_rows))) ''yesterday'' ''2023-08-28 22:12:03''
          ''gud-i'')"
  by (simp add: handler_run client_error_def)

end
